theory Spec2Isabelle
  imports Main "HOL-Library.Sublist"
begin

section \<open>Errors\<close>

text \<open>
  Every exception the modelled code can raise is a value.  The first three are Python's
  own (an index out of range, a local read before it was bound, \<^verbatim>\<open>input()\<close> at the end of
  the input); \<open>ShapeMismatch\<close> is PyTorch's RuntimeError for a slice assignment whose
  right-hand side cannot be broadcast; the last three are the error taxonomy of the cache
  (section 7 of the specification).
\<close>

datatype error =
    IndexError
  | UnboundLocalError
  | EOFError
  | ShapeMismatch
  | InvalidArgument
  | CapacityExceeded
  | AllocationFailure

section \<open>The chat loops (\<^verbatim>\<open>portable-zip/chat.py\<close>)\<close>

text \<open>
  At the level of the chat loops a cached tensor is the list of its rows along the
  sequence dimension; what a row holds (batch, heads, head dimension) is left abstract.
\<close>

subsection \<open>ChatGLM3: keeping the recent rows\<close>

text \<open>
  \<^verbatim>\<open>past_key_values\<close> of the ChatGLM3 path is a tuple of layers, each a tuple of tensors
  whose dimension 0 is the sequence.
\<close>

type_synonym 'a glm_cache = "'a list list list"

definition max_past_length :: nat where
  "max_past_length = 2048"

text \<open>
  Python's \<^verbatim>\<open>val[-n:]\<close> on a tensor or a list: the last \<open>n\<close> items, all of them when
  there are fewer; \<^verbatim>\<open>val[-0:]\<close> is \<^verbatim>\<open>val[0:]\<close>, everything.
\<close>

definition slice_last :: "nat \<Rightarrow> 'a list \<Rightarrow> 'a list" where
  "slice_last n val = (if n = 0 then val else drop (length val - n) val)"

text \<open>Lines 170 to 177: the two nested loops that rebuild the tuple of tuples.\<close>

definition keep_recent :: "'a glm_cache \<Rightarrow> 'a glm_cache" where
  "keep_recent past_key_values = map (map (slice_last max_past_length)) past_key_values"

text \<open>
  Lines 168 to 177.  \<^verbatim>\<open>past_key_values[0][0]\<close> raises IndexError on an empty tuple; the
  test reads the first tensor of the first layer only.
\<close>

definition chatglm3_trim :: "'a glm_cache \<Rightarrow> error + 'a glm_cache" where
  "chatglm3_trim past_key_values =
     (case past_key_values of
        [] \<Rightarrow> Inl IndexError
      | layer0 # _ \<Rightarrow>
          (case layer0 of
             [] \<Rightarrow> Inl IndexError
           | val0 # _ \<Rightarrow>
               if length val0 > max_past_length
               then Inr (keep_recent past_key_values)
               else Inr past_key_values))"

text \<open>
  The state of \<^verbatim>\<open>chatglm3_stream_chat\<close>: its locals, and what it has printed.
  \<^verbatim>\<open>current_length\<close> is set once before the outer loop and never reset.
\<close>

record ('a, 'h) glm_state =
  chat_history :: 'h
  glm_past :: "'a glm_cache option"
  current_length :: nat
  printed :: string

definition glm_init :: "'h \<Rightarrow> ('a, 'h) glm_state" where
  "glm_init empty_history =
     \<lparr>chat_history = empty_history, glm_past = None, current_length = 0, printed = []\<rparr>"

text \<open>
  The body of the inner \<^verbatim>\<open>for\<close> loop (lines 166 to 177) on one item
  \<^verbatim>\<open>(response, chat_history, past_key_values)\<close> that the model's generator yields.
\<close>

definition chatglm3_chunk ::
  "('a, 'h) glm_state \<Rightarrow> string \<times> 'h \<times> 'a glm_cache \<Rightarrow> error + ('a, 'h) glm_state" where
  "chatglm3_chunk s item =
     (case item of (response, history, past_key_values) \<Rightarrow>
        (case chatglm3_trim past_key_values of
           Inl e \<Rightarrow> Inl e
         | Inr kept \<Rightarrow>
             Inr \<lparr>chat_history = history, glm_past = Some kept,
                  current_length = length response,
                  printed = printed s @ drop (current_length s) response\<rparr>))"

fun chatglm3_chunks ::
  "('a, 'h) glm_state \<Rightarrow> (string \<times> 'h \<times> 'a glm_cache) list \<Rightarrow> error + ('a, 'h) glm_state" where
  "chatglm3_chunks s [] = Inr s"
| "chatglm3_chunks s (item # items) =
     (case chatglm3_chunk s item of
        Inl e \<Rightarrow> Inl e
      | Inr s' \<Rightarrow> chatglm3_chunks s' items)"

definition newline :: string where
  "newline = [CHR 0x0A]"

definition glm_prompt :: "string \<Rightarrow> string" where
  "glm_prompt user_input =
     newline @ ''            <|system|>'' @
     newline @ ''            You are an intelligent AI assistant, named ChatGLM3. Follow the user's instructions carefully.'' @
     newline @ ''            <|user|>'' @
     newline @ ''            '' @ user_input @
     newline @ ''            <|assistant|>'' @
     newline @ ''        ''"

text \<open>
  The outer loop over the user's lines.  \<open>banner\<close> is what line 152 prints;
  \<open>model_stream_chat\<close> is the generator of the external model, given the prompt, the
  history and the cache, as the list of the items it yields.
\<close>

definition banner :: string where
  "banner = ''BigDL-LLM: ''"

fun chatglm3_stream_chat ::
  "(string \<Rightarrow> 'h \<Rightarrow> 'a glm_cache option \<Rightarrow> (string \<times> 'h \<times> 'a glm_cache) list) \<Rightarrow>
   ('a, 'h) glm_state \<Rightarrow> string list \<Rightarrow> error + ('a, 'h) glm_state" where
  "chatglm3_stream_chat model_stream_chat s [] = Inl EOFError"
| "chatglm3_stream_chat model_stream_chat s (user_input # inputs) =
     (if user_input = ''stop'' then Inr s
      else
        (case chatglm3_chunks (s\<lparr>printed := printed s @ banner\<rparr>)
                (model_stream_chat (glm_prompt user_input) (chat_history s) (glm_past s)) of
           Inl e \<Rightarrow> Inl e
         | Inr s' \<Rightarrow> chatglm3_stream_chat model_stream_chat s' inputs))"

subsection \<open>The eviction policy \<^verbatim>\<open>StartRecentKVCache\<close>\<close>

text \<open>
  \<^verbatim>\<open>chat.py\<close> imports \<^verbatim>\<open>StartRecentKVCache\<close> from the module \<^verbatim>\<open>kv_cache\<close>, which is not
  among the sources.  Its cache is a sequence of layers, each a pair of key rows and
  value rows.
\<close>

type_synonym 'a cache_set = "('a list \<times> 'a list) list"

record kv_cache =
  start_size :: nat
  max_cache_len :: nat

text \<open>
  Modelled from the spec: \<^verbatim>\<open>truncate_front_and_back\<close> of section 4.1 (the module
  \<^verbatim>\<open>kv_cache\<close> is missing).  The first \<open>keep_front\<close> rows and the last \<open>keep_back\<close> rows
  are moved, in this order, into a fresh region; the specification gives it a meaning
  when the two windows do not overlap.
\<close>

definition truncate_front_and_back :: "nat \<Rightarrow> nat \<Rightarrow> 'a list \<Rightarrow> 'a list" where
  "truncate_front_and_back keep_front keep_back rows =
     take keep_front rows @ drop (length rows - keep_back) rows"

text \<open>
  Modelled from the spec: the shared length of a cache set (sections 3 and 4.3; the
  module \<^verbatim>\<open>kv_cache\<close> is missing), read from the first layer's keys; a set with no layer
  holds nothing.
\<close>

definition cache_length :: "'a cache_set \<Rightarrow> nat" where
  "cache_length cache_set = (case cache_set of [] \<Rightarrow> 0 | (k, v) # _ \<Rightarrow> length k)"

text \<open>
  Modelled from the spec: \<^verbatim>\<open>StartRecentKVCache.evict_for_space\<close>, section 4.3 (the module
  \<^verbatim>\<open>kv_cache\<close> is missing).  In the specification's order: the space check; the no-op
  for a session not longer than the sink window, which holds whatever \<open>space_needed\<close>
  is; the InvalidArgument for a request above the ceiling; the same pair
  \<open>(keep_front, keep_back)\<close> for every layer.
\<close>

definition evict_for_space :: "kv_cache \<Rightarrow> 'a cache_set \<Rightarrow> nat \<Rightarrow> error + 'a cache_set" where
  "evict_for_space self cache_set space_needed =
     (if cache_length cache_set + space_needed \<le> max_cache_len self + start_size self
      then Inr cache_set
      else if cache_length cache_set \<le> start_size self then Inr cache_set
      else if space_needed > max_cache_len self then Inl InvalidArgument
      else
        Inr (map (\<lambda>(k, v).
                    (truncate_front_and_back (start_size self)
                       (max_cache_len self - space_needed) k,
                     truncate_front_and_back (start_size self)
                       (max_cache_len self - space_needed) v))
               cache_set))"

text \<open>
  Modelled from the spec: what the policy does with the \<^verbatim>\<open>None\<close> that the chat loops
  pass before the first turn (the module \<^verbatim>\<open>kv_cache\<close> is missing).  No buffer exists
  yet (section 3, lifecycle), so nothing lies past the sink window and the value is
  returned as it is.
\<close>

definition evict_past :: "kv_cache \<Rightarrow> 'a cache_set option \<Rightarrow> nat \<Rightarrow> error + 'a cache_set option" where
  "evict_past self past_key_values space_needed =
     (case past_key_values of
        None \<Rightarrow> Inr None
      | Some cache_set \<Rightarrow>
          (case evict_for_space self cache_set space_needed of
             Inl e \<Rightarrow> Inl e
           | Inr kept \<Rightarrow> Inr (Some kept)))"

subsection \<open>\<^verbatim>\<open>greedy_generate\<close>\<close>

text \<open>
  The external collaborators.  A forward pass of the model takes the input ids and the
  cache and gives the new cache and the argmax token of the last position.  The
  tokenizer encodes a prompt, decodes generated ids, and has an end-of-sequence id,
  which may be \<^verbatim>\<open>None\<close>.  Token ids and \<^verbatim>\<open>max_gen_len\<close> are natural numbers:
  \<^verbatim>\<open>range(max_gen_len - 1)\<close> is empty for \<^verbatim>\<open>max_gen_len\<close> 0 and 1 alike.
\<close>

type_synonym 'a forward = "nat list \<Rightarrow> 'a cache_set option \<Rightarrow> 'a cache_set \<times> nat"

record tokenizer =
  encode :: "string \<Rightarrow> nat list"
  decode :: "nat list \<Rightarrow> string"
  eos_token_id :: "nat option"

text \<open>The locals of \<^verbatim>\<open>greedy_generate\<close>; \<^verbatim>\<open>generated_text\<close> is unbound until line 102 runs.\<close>

record 'a gen_state =
  cache :: "'a cache_set"
  pred_token_idx :: nat
  generated_ids :: "nat list"
  pos :: int
  generated_text :: "string option"

text \<open>Lines 94 to 98: some stop word is the tail of the generated ids.\<close>

definition stop_hit :: "nat list list option \<Rightarrow> nat list \<Rightarrow> bool" where
  "stop_hit stop_words ids =
     (case stop_words of
        None \<Rightarrow> False
      | Some words \<Rightarrow> list_ex (\<lambda>stop_str. slice_last (length stop_str) ids = stop_str) words)"

text \<open>Python's \<^verbatim>\<open>sub in text\<close> on strings.\<close>

fun contains :: "string \<Rightarrow> string \<Rightarrow> bool" where
  "contains sub [] = (sub = [])"
| "contains sub (c # cs) = (take (length sub) (c # cs) = sub \<or> contains sub cs)"

text \<open>
  The loop of lines 84 to 115, with the number of iterations that remain.  What the loop
  prints is left out; \<^verbatim>\<open>pos\<close> is kept, since the test of line 107 reads it.
\<close>

fun generate_loop ::
  "'a forward \<Rightarrow> tokenizer \<Rightarrow> nat list list option \<Rightarrow> nat \<Rightarrow> 'a gen_state \<Rightarrow> 'a gen_state" where
  "generate_loop model tok stop_words 0 s = s"
| "generate_loop model tok stop_words (Suc n) s =
     (case model [pred_token_idx s] (Some (cache s)) of
        (past_key_values, token) \<Rightarrow>
          let s1 = s\<lparr>cache := past_key_values, pred_token_idx := token,
                     generated_ids := generated_ids s @ [token]\<rparr>
          in if stop_hit stop_words (generated_ids s1) then s1
             else
               let text = decode tok (generated_ids s1);
                   now = int (length text) - 1;
                   s2 = s1\<lparr>generated_text := Some text\<rparr>
               in if now > pos s2 \<and> contains (newline @ ''<'') text then s2
                  else
                    let s3 = (if now > pos s2 then s2\<lparr>pos := now\<rparr> else s2)
                    in if Some token = eos_token_id tok then s3
                       else generate_loop model tok stop_words n s3)"

text \<open>Lines 74 to 115: the first forward pass on the whole prompt, then the loop.\<close>

definition greedy_generate_run ::
  "'a forward \<Rightarrow> tokenizer \<Rightarrow> nat list \<Rightarrow> 'a cache_set option \<Rightarrow> nat \<Rightarrow>
   nat list list option \<Rightarrow> 'a gen_state" where
  "greedy_generate_run model tok input_ids past_key_values max_gen_len stop_words =
     (case model input_ids past_key_values of
        (past_key_values', token) \<Rightarrow>
          generate_loop model tok stop_words (max_gen_len - 1)
            \<lparr>cache = past_key_values', pred_token_idx = token, generated_ids = [token],
             pos = 0, generated_text = None\<rparr>)"

text \<open>
  Lines 116 and 117: the last \<^verbatim>\<open>print\<close> reads \<^verbatim>\<open>generated_text\<close>, which raises when no
  iteration of the loop reached line 102; otherwise the cache is returned.
\<close>

definition greedy_generate ::
  "'a forward \<Rightarrow> tokenizer \<Rightarrow> nat list \<Rightarrow> 'a cache_set option \<Rightarrow> nat \<Rightarrow>
   nat list list option \<Rightarrow> error + 'a cache_set" where
  "greedy_generate model tok input_ids past_key_values max_gen_len stop_words =
     (let s = greedy_generate_run model tok input_ids past_key_values max_gen_len stop_words
      in case generated_text s of
           None \<Rightarrow> Inl UnboundLocalError
         | Some text \<Rightarrow> Inr (cache s))"

subsection \<open>The chat loops with a \<^verbatim>\<open>kv_cache\<close>\<close>





text \<open>
  The calls a loop makes to the eviction policy and to \<^verbatim>\<open>greedy_generate\<close> are logged, in
  order, with the space asked for and with the input ids and \<^verbatim>\<open>max_gen_len\<close> passed.
\<close>

datatype call = EvictForSpace nat | GreedyGenerate "nat list" nat

text \<open>
  One turn: the body of the \<^verbatim>\<open>while\<close> loop after the test for \<^verbatim>\<open>stop\<close> (lines 127 to 136
  of \<^verbatim>\<open>stream_chat\<close>, and the same lines of the other three).  It gives the calls made
  and either the exception that ended the turn or the cache for the next turn.
\<close>

definition chat_turn ::
  "(string \<Rightarrow> string) \<Rightarrow> 'a forward \<Rightarrow> tokenizer \<Rightarrow> kv_cache option \<Rightarrow> nat \<Rightarrow>
   nat list list option \<Rightarrow> 'a cache_set option \<Rightarrow> string \<Rightarrow>
   call list \<times> (error + 'a cache_set option)" where
  "chat_turn template model tok kv_cache max_gen_len stop_words past_key_values user_input =
     (let prompt = template user_input;
          input_ids = encode tok prompt;
          seq_len = length input_ids
      in case kv_cache of
           None \<Rightarrow>
             ([GreedyGenerate input_ids max_gen_len],
              map_sum id Some
                (greedy_generate model tok input_ids past_key_values max_gen_len stop_words))
         | Some self \<Rightarrow>
             let space_needed = seq_len + max_gen_len
             in case evict_past self past_key_values space_needed of
                  Inl e \<Rightarrow> ([EvictForSpace space_needed], Inl e)
                | Inr kept \<Rightarrow>
                    ([EvictForSpace space_needed, GreedyGenerate input_ids max_gen_len],
                     map_sum id Some
                       (greedy_generate model tok input_ids kept max_gen_len stop_words)))"






subsection \<open>Vocabulary for the properties of the chat loops\<close>

text \<open>The number of rows an optional cache holds: none before the first turn.\<close>

definition past_length :: "'a cache_set option \<Rightarrow> nat" where
  "past_length past_key_values = (case past_key_values of None \<Rightarrow> 0 | Some c \<Rightarrow> cache_length c)"

text \<open>
  What the loops rely on from the external model: a forward pass on some input ids
  returns a cache that many rows longer than the one it was given.
\<close>

definition extends_cache :: "'a forward \<Rightarrow> bool" where
  "extends_cache model =
     (\<forall>ids past_key_values.
        cache_length (fst (model ids past_key_values)) = past_length past_key_values + length ids)"


text \<open>
  A model and a tokenizer for concrete runs: the model has one layer, caches the ids it
  is fed and always predicts token 7; the tokenizer maps characters to their codes.
\<close>

definition echo_model :: "nat forward" where
  "echo_model input_ids past_key_values =
     (let rows = (case past_key_values of
                    None \<Rightarrow> []
                  | Some cache_set \<Rightarrow> (case cache_set of [] \<Rightarrow> [] | (k, v) # _ \<Rightarrow> k))
      in ([(rows @ input_ids, rows @ input_ids)], 7))"

definition letters :: tokenizer where
  "letters = \<lparr>encode = map of_char, decode = map char_of, eos_token_id = None\<rparr>"

section \<open>The Falcon attention forward passes (\<^verbatim>\<open>transformers/models/falcon.py\<close>)\<close>

subsection \<open>Device memory and tensors\<close>

text \<open>
  The forward passes allocate storage, copy into it and append to it in place, and the
  tensor they return shares its storage with the one they were given.  So storage is
  kept in an explicit memory: a region per address, a list of slots along the sequence
  axis.  A slot holds what a tensor of shape \<open>[batch, heads, capacity, head_dim]\<close> holds
  at one sequence position, or nothing yet (\<open>None\<close>) where the region was never written.
  \<open>free_elements\<close> is what the device can still provide.
\<close>

record 'a device =
  storages :: "nat \<Rightarrow> 'a option list"
  allocated :: nat
  free_elements :: nat

text \<open>
  A tensor is a view of a region: \<open>size2\<close> is \<^verbatim>\<open>size(2)\<close>, the number of rows in use,
  \<open>size3\<close> is \<^verbatim>\<open>size(3)\<close>, the head dimension, and \<open>stride1\<close> is \<^verbatim>\<open>stride()[1]\<close>, the
  distance in elements from one head to the next.  A tensor of three axes, as
  \<^verbatim>\<open>present\<close> holds them, has the batch and head axes merged; \<open>stride1\<close> is then its
  \<^verbatim>\<open>stride()[0]\<close>.
\<close>

record tensor =
  base :: nat
  size2 :: nat
  size3 :: nat
  stride1 :: nat

text \<open>
  PyTorch's \<^verbatim>\<open>view\<close> regroups the batch and head axes and computes the strides anew.
  The rows in use and the head dimension stay; the stride of an axis of size 1 does not
  stay: it becomes what a contiguous tensor of the shape in use would have.
  \<open>view_heads\<close> is \<^verbatim>\<open>layer_past[i].view(batch_size, num_kv, -1, head_dim)\<close> (lines 98 and 99):
  with one head, \<^verbatim>\<open>stride()[1]\<close> is \<^verbatim>\<open>size(2) * size(3)\<close> afterwards.
  \<open>view_merged\<close> is \<^verbatim>\<open>key_layer.view(batch_size * num_kv, -1, head_dim)\<close> (lines 135 and
  136): with a merged axis of size 1, \<^verbatim>\<open>stride()[0]\<close> is \<^verbatim>\<open>size(1) * size(2)\<close> afterwards.
\<close>

definition view_heads :: "nat \<Rightarrow> tensor \<Rightarrow> tensor" where
  "view_heads num_kv t = (if num_kv = 1 then t\<lparr>stride1 := size2 t * size3 t\<rparr> else t)"

definition view_merged :: "nat \<Rightarrow> nat \<Rightarrow> tensor \<Rightarrow> tensor" where
  "view_merged batch_size num_kv t =
     (if batch_size * num_kv = 1 then t\<lparr>stride1 := size2 t * size3 t\<rparr> else t)"

definition capacity :: "'a device \<Rightarrow> tensor \<Rightarrow> nat" where
  "capacity dev t = length (storages dev (base t))"

definition valid_rows :: "'a device \<Rightarrow> tensor \<Rightarrow> 'a option list" where
  "valid_rows dev t = take (size2 t) (storages dev (base t))"

definition KV_CACHE_ALLOC_BLOCK_LENGTH :: nat where
  "KV_CACHE_ALLOC_BLOCK_LENGTH = 256"

subsection \<open>The helpers of \<^verbatim>\<open>bigdl.llm.transformers.models.utils\<close>\<close>

text \<open>
  Modelled from the spec: the allocation of one storage region (sections 3, 4.1 and 7;
  the module \<^verbatim>\<open>bigdl.llm.transformers.models.utils\<close> is missing).  The region has
  \<open>slots\<close> slots along the sequence axis, all undefined, and takes
  \<open>batch_size * num_heads * slots * head_dim\<close> elements; the allocation fails with
  AllocationFailure when the device cannot provide them, and then changes nothing.
\<close>

definition allocate_storage ::
  "nat \<Rightarrow> nat \<Rightarrow> nat \<Rightarrow> nat \<Rightarrow> 'a device \<Rightarrow> error + nat \<times> 'a device" where
  "allocate_storage batch_size num_heads slots head_dim dev =
     (if batch_size * num_heads * slots * head_dim \<le> free_elements dev
      then Inr (allocated dev,
                dev\<lparr>storages := (storages dev)(allocated dev := replicate slots None),
                    allocated := Suc (allocated dev),
                    free_elements := free_elements dev - batch_size * num_heads * slots * head_dim\<rparr>)
      else Inl AllocationFailure)"

text \<open>
  Modelled from the spec: \<^verbatim>\<open>init_kv_cache\<close>, the allocation half of \<^verbatim>\<open>create\<close> in section
  4.1 (the module \<^verbatim>\<open>bigdl.llm.transformers.models.utils\<close> is missing; the caller copies
  the rows in).  A key region and a value region of \<open>initial_capacity\<close> are allocated
  and viewed with \<open>initial_length\<close> rows; a contiguous region of shape
  \<open>[batch, heads, capacity, head_dim]\<close> has \<open>capacity * head_dim\<close> elements per head.
  InvalidArgument when the capacity is below the length.
\<close>

definition init_kv_cache ::
  "nat \<Rightarrow> nat \<Rightarrow> nat \<Rightarrow> nat \<Rightarrow> nat \<Rightarrow> 'a device \<Rightarrow> (error + tensor \<times> tensor) \<times> 'a device" where
  "init_kv_cache batch_size num_heads head_dim initial_length initial_capacity dev =
     (if initial_capacity < initial_length then (Inl InvalidArgument, dev)
      else
        (case allocate_storage batch_size num_heads initial_capacity head_dim dev of
           Inl e \<Rightarrow> (Inl e, dev)
         | Inr (key_base, dev1) \<Rightarrow>
             (case allocate_storage batch_size num_heads initial_capacity head_dim dev1 of
                Inl e \<Rightarrow> (Inl e, dev1)
              | Inr (value_base, dev2) \<Rightarrow>
                  (Inr (\<lparr>base = key_base, size2 = initial_length, size3 = head_dim,
                         stride1 = initial_capacity * head_dim\<rparr>,
                        \<lparr>base = value_base, size2 = initial_length, size3 = head_dim,
                         stride1 = initial_capacity * head_dim\<rparr>),
                   dev2))))"

text \<open>
  Modelled from the spec: \<^verbatim>\<open>extend_kv_cache\<close>, the allocation half of \<^verbatim>\<open>grow\<close> in section
  4.1 (the module \<^verbatim>\<open>bigdl.llm.transformers.models.utils\<close> is missing).  It has the
  arguments of \<^verbatim>\<open>init_kv_cache\<close> and allocates the new region in the same way; the
  caller copies the old rows in.
\<close>

definition extend_kv_cache ::
  "nat \<Rightarrow> nat \<Rightarrow> nat \<Rightarrow> nat \<Rightarrow> nat \<Rightarrow> 'a device \<Rightarrow> (error + tensor \<times> tensor) \<times> 'a device" where
  "extend_kv_cache batch_size num_heads head_dim old_length new_capacity dev =
     init_kv_cache batch_size num_heads head_dim old_length new_capacity dev"

text \<open>
  Modelled from the spec: \<^verbatim>\<open>append\<close> of section 4.1 on one buffer (the module
  \<^verbatim>\<open>bigdl.llm.transformers.models.utils\<close> is missing).  The new rows are written in place
  after the rows in use and the view grows by them; CapacityExceeded when they do not
  fit.
\<close>

definition append_rows :: "tensor \<Rightarrow> 'a list \<Rightarrow> 'a device \<Rightarrow> error + tensor \<times> 'a device" where
  "append_rows t new_rows dev =
     (if capacity dev t < size2 t + length new_rows then Inl CapacityExceeded
      else Inr (t\<lparr>size2 := size2 t + length new_rows\<rparr>,
                dev\<lparr>storages := (storages dev)
                      (base t := take (size2 t) (storages dev (base t)) @ map Some new_rows @
                                 drop (size2 t + length new_rows) (storages dev (base t)))\<rparr>))"

text \<open>
  Modelled from the spec: \<^verbatim>\<open>append_kv_cache\<close>, \<^verbatim>\<open>append\<close> of section 4.1 on the key
  buffer and then on the value buffer (the module
  \<^verbatim>\<open>bigdl.llm.transformers.models.utils\<close> is missing).
\<close>

definition append_kv_cache ::
  "tensor \<Rightarrow> tensor \<Rightarrow> 'a list \<Rightarrow> 'a list \<Rightarrow> 'a device \<Rightarrow>
   (error + tensor \<times> tensor) \<times> 'a device" where
  "append_kv_cache cache_k cache_v key_states value_states dev =
     (case append_rows cache_k key_states dev of
        Inl e \<Rightarrow> (Inl e, dev)
      | Inr (new_cache_k, dev1) \<Rightarrow>
          (case append_rows cache_v value_states dev1 of
             Inl e \<Rightarrow> (Inl e, dev1)
           | Inr (new_cache_v, dev2) \<Rightarrow> (Inr (new_cache_k, new_cache_v), dev2)))"

subsection \<open>The cache handling of the forward passes\<close>

text \<open>
  PyTorch's \<^verbatim>\<open>dst[:] = src\<close> along the sequence axis: the rows of \<open>src\<close> overwrite the rows
  in use of \<open>dst\<close>; a single row is broadcast; any other number of rows is a
  RuntimeError.
\<close>

definition assign_all :: "tensor \<Rightarrow> 'a option list \<Rightarrow> 'a device \<Rightarrow> error + 'a device" where
  "assign_all dst src dev =
     (if length src = size2 dst
      then Inr (dev\<lparr>storages := (storages dev)
                       (base dst := src @ drop (size2 dst) (storages dev (base dst)))\<rparr>)
      else if length src = 1
      then Inr (dev\<lparr>storages := (storages dev)
                       (base dst := replicate (size2 dst) (hd src) @
                                    drop (size2 dst) (storages dev (base dst)))\<rparr>)
      else Inl ShapeMismatch)"

text \<open>
  Lines 88 to 141 of \<^verbatim>\<open>rw_attention_forward_7b\<close>, which are lines 267 to 320 of
  \<^verbatim>\<open>rw_attention_forward_40b\<close> and lines 442 to 494 of \<^verbatim>\<open>falcon_attention_forward\<close> but
  for the name of the number of key/value heads.  \<open>fused_kv\<close> holds the new key row and
  the new value row of each of the \<open>q_length\<close> positions of \<^verbatim>\<open>hidden_states\<close>.  The
  result is \<^verbatim>\<open>present\<close>; the attention computed from it is not modelled.
\<close>

definition attention_kv ::
  "nat \<Rightarrow> nat \<Rightarrow> nat \<Rightarrow> (tensor \<times> tensor) option \<Rightarrow> bool \<Rightarrow> ('a \<times> 'a) list \<Rightarrow> 'a device \<Rightarrow>
   (error + (tensor \<times> tensor) option) \<times> 'a device" where
  "attention_kv batch_size num_kv head_dim layer_past use_cache fused_kv dev =
     (let key_layer = map fst fused_kv;
          value_layer = map snd fused_kv;
          q_length = length fused_kv
      in case layer_past of
           Some (past_k, past_v) \<Rightarrow>
             let kv_length = q_length + size2 past_k;
                 cache_k = view_heads num_kv past_k;
                 cache_v = view_heads num_kv past_v
             in if stride1 cache_k \<le> size2 cache_k * size3 cache_k
                then
                  (case extend_kv_cache batch_size num_kv head_dim (size2 cache_k)
                          (kv_length + KV_CACHE_ALLOC_BLOCK_LENGTH) dev of
                     (Inl e, dev1) \<Rightarrow> (Inl e, dev1)
                   | (Inr (new_cache_k, new_cache_v), dev1) \<Rightarrow>
                       (case assign_all new_cache_k (valid_rows dev1 cache_k) dev1 of
                          Inl e \<Rightarrow> (Inl e, dev1)
                        | Inr dev2 \<Rightarrow>
                            (case assign_all new_cache_v (valid_rows dev2 cache_v) dev2 of
                               Inl e \<Rightarrow> (Inl e, dev2)
                             | Inr dev3 \<Rightarrow>
                                 (case append_kv_cache new_cache_k new_cache_v
                                         key_layer value_layer dev3 of
                                    (Inl e, dev4) \<Rightarrow> (Inl e, dev4)
                                  | (Inr (k, v), dev4) \<Rightarrow>
                                      (Inr (if use_cache
                                            then Some (view_merged batch_size num_kv k,
                                                       view_merged batch_size num_kv v)
                                            else None), dev4)))))
                else
                  (case append_kv_cache cache_k cache_v key_layer value_layer dev of
                     (Inl e, dev1) \<Rightarrow> (Inl e, dev1)
                   | (Inr (k, v), dev1) \<Rightarrow>
                       (Inr (if use_cache
                             then Some (view_merged batch_size num_kv k,
                                        view_merged batch_size num_kv v)
                             else None), dev1))
         | None \<Rightarrow>
             if use_cache
             then
               (let kv_length = q_length;
                    max_cache_length = kv_length + KV_CACHE_ALLOC_BLOCK_LENGTH
                in case init_kv_cache batch_size num_kv head_dim kv_length max_cache_length dev of
                     (Inl e, dev1) \<Rightarrow> (Inl e, dev1)
                   | (Inr (new_key_states, new_value_states), dev1) \<Rightarrow>
                       (case assign_all new_key_states (map Some key_layer) dev1 of
                          Inl e \<Rightarrow> (Inl e, dev1)
                        | Inr dev2 \<Rightarrow>
                            (case assign_all new_value_states (map Some value_layer) dev2 of
                               Inl e \<Rightarrow> (Inl e, dev2)
                             | Inr dev3 \<Rightarrow>
                                 (Inr (Some (view_merged batch_size num_kv new_key_states,
                                             view_merged batch_size num_kv new_value_states)),
                                  dev3))))
             else (Inr None, dev))"

subsection \<open>Well-formed tensors\<close>

text \<open>
  A tensor is well formed in a memory when its region is allocated, its rows in use fit
  the region, and its stride is that of a contiguous region of its capacity.
\<close>

definition well_formed :: "'a device \<Rightarrow> tensor \<Rightarrow> bool" where
  "well_formed dev t \<longleftrightarrow>
     base t < allocated dev \<and> size2 t \<le> capacity dev t \<and>
     stride1 t = capacity dev t * size3 t"

text \<open>The rows cached before a forward pass: none without a past.\<close>

definition past_rows :: "(tensor \<times> tensor) option \<Rightarrow> nat" where
  "past_rows layer_past = (case layer_past of None \<Rightarrow> 0 | Some (k, v) \<Rightarrow> size2 k)"

subsection \<open>The three forward passes\<close>

text \<open>The attributes of \<^verbatim>\<open>self\<close> that the three forward passes read for the cache.\<close>

record attention =
  num_heads :: nat
  num_kv :: nat
  num_kv_heads :: nat
  new_decoder_architecture :: bool
  head_dim :: nat

definition rw_attention_forward_7b ::
  "attention \<Rightarrow> nat \<Rightarrow> (tensor \<times> tensor) option \<Rightarrow> bool \<Rightarrow> ('a \<times> 'a) list \<Rightarrow> 'a device \<Rightarrow>
   (error + (tensor \<times> tensor) option) \<times> 'a device" where
  "rw_attention_forward_7b self batch_size layer_past use_cache fused_kv dev =
     attention_kv batch_size (num_kv self) (head_dim self) layer_past use_cache fused_kv dev"

definition rw_attention_forward_40b ::
  "attention \<Rightarrow> nat \<Rightarrow> (tensor \<times> tensor) option \<Rightarrow> bool \<Rightarrow> ('a \<times> 'a) list \<Rightarrow> 'a device \<Rightarrow>
   (error + (tensor \<times> tensor) option) \<times> 'a device" where
  "rw_attention_forward_40b self batch_size layer_past use_cache fused_kv dev =
     attention_kv batch_size (num_heads self) (head_dim self) layer_past use_cache fused_kv dev"

definition falcon_attention_forward ::
  "attention \<Rightarrow> nat \<Rightarrow> (tensor \<times> tensor) option \<Rightarrow> bool \<Rightarrow> ('a \<times> 'a) list \<Rightarrow> 'a device \<Rightarrow>
   (error + (tensor \<times> tensor) option) \<times> 'a device" where
  "falcon_attention_forward self batch_size layer_past use_cache fused_kv dev =
     attention_kv batch_size
       (if new_decoder_architecture self then num_heads self else num_kv_heads self)
       (head_dim self) layer_past use_cache fused_kv dev"

subsection \<open>Sessions and concrete states\<close>

definition falcon_variant ::
  "(attention \<Rightarrow> nat \<Rightarrow> (tensor \<times> tensor) option \<Rightarrow> bool \<Rightarrow> ('a \<times> 'a) list \<Rightarrow> 'a device \<Rightarrow>
    (error + (tensor \<times> tensor) option) \<times> 'a device) \<Rightarrow> bool" where
  "falcon_variant forward \<longleftrightarrow>
     forward = rw_attention_forward_7b \<or> forward = rw_attention_forward_40b \<or>
     forward = falcon_attention_forward"

text \<open>
  A decoding session on one layer, as the model drives it: every forward pass has
  \<^verbatim>\<open>use_cache\<close> set and gets the \<^verbatim>\<open>present\<close> of the pass before as its \<^verbatim>\<open>layer_past\<close>.
\<close>

fun cached_steps ::
  "((tensor \<times> tensor) option \<Rightarrow> bool \<Rightarrow> ('a \<times> 'a) list \<Rightarrow> 'a device \<Rightarrow>
    (error + (tensor \<times> tensor) option) \<times> 'a device) \<Rightarrow>
   (tensor \<times> tensor) option \<Rightarrow> ('a \<times> 'a) list list \<Rightarrow> 'a device \<Rightarrow>
   (error + (tensor \<times> tensor) option) \<times> 'a device" where
  "cached_steps forward layer_past [] dev = (Inr layer_past, dev)"
| "cached_steps forward layer_past (fused_kv # rest) dev =
     (case forward layer_past True fused_kv dev of
        (Inl e, dev1) \<Rightarrow> (Inl e, dev1)
      | (Inr present, dev1) \<Rightarrow> cached_steps forward present rest dev1)"

text \<open>
  What holds of the cache of a session that started without one in a memory with \<open>a0\<close>
  regions, after \<open>n\<close> allocations of a key and a value region and \<open>L\<close> rows.
\<close>

definition session_inv :: "nat \<Rightarrow> nat \<Rightarrow> nat \<Rightarrow> nat \<Rightarrow> 'a device \<Rightarrow> tensor \<times> tensor \<Rightarrow> bool" where
  "session_inv d a0 n L dev kv =
     (case kv of (k, v) \<Rightarrow>
        size2 k = L \<and> size2 v = L \<and> size3 k = d \<and> stride1 k = capacity dev k * d \<and>
        L \<le> capacity dev k \<and> capacity dev k \<le> L + 256 \<and> 257 * n \<le> capacity dev k + 1 \<and>
        allocated dev = a0 + 2 * n)"

text \<open>
  Memories and two layers for concrete runs.  In \<open>full_device\<close> the two regions of
  \<open>full_past\<close> hold two rows and have no free slot; in \<open>tight_device\<close> the regions of
  \<open>tight_past\<close> hold two rows and have one free slot.
\<close>

definition one_head :: attention where
  "one_head = \<lparr>num_heads = 1, num_kv = 1, num_kv_heads = 1, new_decoder_architecture = False,
               head_dim = 1\<rparr>"

definition two_heads :: attention where
  "two_heads = \<lparr>num_heads = 2, num_kv = 2, num_kv_heads = 2, new_decoder_architecture = False,
                head_dim = 1\<rparr>"

definition empty_device :: "nat \<Rightarrow> nat device" where
  "empty_device free = \<lparr>storages = (\<lambda>a. []), allocated = 0, free_elements = free\<rparr>"

definition full_device :: "nat \<Rightarrow> nat device" where
  "full_device free =
     \<lparr>storages = (\<lambda>a. [])(0 := [Some 1, Some 2], 1 := [Some 3, Some 4]),
      allocated = 2, free_elements = free\<rparr>"

definition full_past :: "tensor \<times> tensor" where
  "full_past = (\<lparr>base = 0, size2 = 2, size3 = 1, stride1 = 2\<rparr>,
                \<lparr>base = 1, size2 = 2, size3 = 1, stride1 = 2\<rparr>)"

definition tight_device :: "nat device" where
  "tight_device =
     \<lparr>storages = (\<lambda>a. [])(0 := [Some 1, Some 2, None], 1 := [Some 3, Some 4, None]),
      allocated = 2, free_elements = 1000\<rparr>"

definition tight_past :: "tensor \<times> tensor" where
  "tight_past = (\<lparr>base = 0, size2 = 2, size3 = 1, stride1 = 3\<rparr>,
                 \<lparr>base = 1, size2 = 2, size3 = 1, stride1 = 3\<rparr>)"

section \<open>Properties of the ChatGLM3 path\<close>

lemma slice_last_max_past_length:
  "slice_last max_past_length val = drop (length val - 2048) val"
  by (simp add: slice_last_def max_past_length_def)

lemma length_slice_last_max_past_length:
  "length (slice_last max_past_length val) = min (length val) 2048"
  by (simp add: slice_last_max_past_length)

lemma keep_recent_lengths:
  "list_all (list_all (\<lambda>val. length val = n)) pkv \<Longrightarrow>
   list_all (list_all (\<lambda>val. length val = min n 2048)) (keep_recent pkv)"
  by (simp add: keep_recent_def list_all_iff length_slice_last_max_past_length)

lemma keep_recent_drop:
  "keep_recent pkv = map (map (\<lambda>val. drop (length val - 2048) val)) pkv"
  by (simp add: keep_recent_def slice_last_max_past_length)

lemma chatglm3_trim_cases:
  "chatglm3_trim ((val0 # vals) # layers) =
     Inr (if 2048 < length val0 then keep_recent ((val0 # vals) # layers)
          else (val0 # vals) # layers)"
  by (simp add: chatglm3_trim_def max_past_length_def)

lemma chatglm3_chunk_cases:
  "chatglm3_chunk s (response, history, (val0 # vals) # layers) =
     Inr \<lparr>chat_history = history,
          glm_past = Some (if 2048 < length val0 then keep_recent ((val0 # vals) # layers)
                           else (val0 # vals) # layers),
          current_length = length response,
          printed = printed s @ drop (current_length s) response\<rparr>"
  by (simp add: chatglm3_chunk_def chatglm3_trim_cases)

text \<open>
  Claim C8.  When the tensors of the cache that a streamed item carries all have the same
  number \<open>n\<close> of rows (the layers of one model are decoded together), the loop body
  succeeds and leaves a cache in which every tensor has \<open>min n 2048\<close> rows: at most
  \<^const>\<open>max_past_length\<close>, and the same number in every layer.  When the truncation fires,
  every tensor of every layer gets the same trailing slice.
\<close>

theorem chatglm3_chunk_bounded:
  assumes same: "list_all (list_all (\<lambda>val. length val = n)) past_key_values"
    and layers: "past_key_values = (val0 # vals) # rest"
  shows "\<exists>s' kept. chatglm3_chunk s (response, history, past_key_values) = Inr s' \<and>
           glm_past s' = Some kept \<and>
           list_all (list_all (\<lambda>val. length val \<le> max_past_length)) kept \<and>
           list_all (list_all (\<lambda>val. length val = min n max_past_length)) kept \<and>
           (max_past_length < n \<longrightarrow>
              kept = map (map (\<lambda>val. drop (length val - max_past_length) val)) past_key_values)"
proof -
  define kept where "kept = (if 2048 < n then keep_recent past_key_values else past_key_values)"
  define s' where "s' = \<lparr>chat_history = history, glm_past = Some kept,
          current_length = length response,
          printed = printed s @ drop (current_length s) response\<rparr>"
  have n: "length val0 = n" using same layers by simp
  have run: "chatglm3_chunk s (response, history, past_key_values) = Inr s'"
    using n by (simp add: layers chatglm3_chunk_cases s'_def kept_def)
  have past: "glm_past s' = Some kept" by (simp add: s'_def)
  have eq: "list_all (list_all (\<lambda>val. length val = min n max_past_length)) kept"
  proof (cases "2048 < n")
    case True
    then show ?thesis using keep_recent_lengths [OF same]
      by (simp add: kept_def max_past_length_def)
  next
    case False
    then have "min n 2048 = n" by simp
    then show ?thesis using same False by (simp add: kept_def max_past_length_def)
  qed
  have le: "list_all (list_all (\<lambda>val. length val \<le> max_past_length)) kept"
    using eq by (simp add: list_all_iff)
  have slice: "max_past_length < n \<longrightarrow>
      kept = map (map (\<lambda>val. drop (length val - max_past_length) val)) past_key_values"
    by (simp add: kept_def max_past_length_def keep_recent_drop)
  from run past le eq slice show ?thesis by blast
qed

theorem chatglm3_chunk_bounded_witness:
  "\<exists>s' kept. chatglm3_chunk (glm_init ()) (''hi'', (), [[replicate 2050 (0::nat), replicate 2050 1], [replicate 2050 2, replicate 2050 3]]) = Inr s' \<and>
     glm_past s' = Some kept \<and> 
     kept = [[replicate 2048 0, replicate 2048 1], [replicate 2048 2, replicate 2048 3]]"
  using chatglm3_chunk_bounded [of 2050 "[[replicate 2050 (0::nat), replicate 2050 1], [replicate 2050 2, replicate 2050 3]]"
      "replicate 2050 0" "[replicate 2050 1]" "[[replicate 2050 2, replicate 2050 3]]" "glm_init ()" "''hi''" "()"]
  by (auto simp add: max_past_length_def)

section \<open>Properties of the eviction policy\<close>

lemma evict_for_space_enough_room:
  "cache_length cache_set + space_needed \<le> max_cache_len self + start_size self \<Longrightarrow>
   evict_for_space self cache_set space_needed = Inr cache_set"
  by (simp add: evict_for_space_def)

lemma evict_for_space_below_sink:
  "cache_length cache_set \<le> start_size self \<Longrightarrow>
   evict_for_space self cache_set space_needed = Inr cache_set"
  by (simp add: evict_for_space_def)

lemma evict_for_space_too_large:
  "max_cache_len self + start_size self < cache_length cache_set + space_needed \<Longrightarrow>
   start_size self < cache_length cache_set \<Longrightarrow> max_cache_len self < space_needed \<Longrightarrow>
   evict_for_space self cache_set space_needed = Inl InvalidArgument"
  by (simp add: evict_for_space_def)

lemma evict_for_space_compacts:
  "max_cache_len self + start_size self < cache_length cache_set + space_needed \<Longrightarrow>
   start_size self < cache_length cache_set \<Longrightarrow> space_needed \<le> max_cache_len self \<Longrightarrow>
   evict_for_space self cache_set space_needed =
     Inr (map (\<lambda>(k, v).
                 (truncate_front_and_back (start_size self) (max_cache_len self - space_needed) k,
                  truncate_front_and_back (start_size self) (max_cache_len self - space_needed) v))
            cache_set)"
  by (simp add: evict_for_space_def)

lemma length_truncate_front_and_back:
  "keep_front + keep_back \<le> length rows \<Longrightarrow>
   length (truncate_front_and_back keep_front keep_back rows) = keep_front + keep_back"
  by (simp add: truncate_front_and_back_def)

lemma cache_length_uniform:
  "cache_set \<noteq> [] \<Longrightarrow> list_all (\<lambda>(k, v). length k = n \<and> length v = n) cache_set \<Longrightarrow>
   cache_length cache_set = n"
  by (cases cache_set) (auto simp add: cache_length_def)

text \<open>
  Claim C3, as amended.  \<^const>\<open>evict_for_space\<close> returns the cache unchanged when
  \<open>length + space_needed \<le> max_cache_len + start_size\<close>, and also when the cache is not
  longer than the sink window.  Past the threshold, with a cache longer than the sink
  window, it fails with InvalidArgument when \<open>space_needed\<close> exceeds \<open>max_cache_len\<close> and
  otherwise compacts every layer with \<open>keep_front = start_size\<close> and
  \<open>keep_back = max_cache_len - space_needed\<close>.  For \<open>start_size = 4\<close> and
  \<open>max_cache_len = 20\<close>: a cache of length 18 with \<open>space_needed = 5\<close> is returned
  unchanged, and a cache of length 22 is compacted with \<open>keep_back = 15\<close> to length 19.
\<close>

theorem evict_for_space_policy:
  "(cache_length cache_set + space_needed \<le> max_cache_len self + start_size self \<longrightarrow>
      evict_for_space self cache_set space_needed = Inr cache_set) \<and>
   (cache_length cache_set \<le> start_size self \<longrightarrow>
      evict_for_space self cache_set space_needed = Inr cache_set) \<and>
   (max_cache_len self + start_size self < cache_length cache_set + space_needed \<and>
    start_size self < cache_length cache_set \<and> max_cache_len self < space_needed \<longrightarrow>
      evict_for_space self cache_set space_needed = Inl InvalidArgument) \<and>
   (max_cache_len self + start_size self < cache_length cache_set + space_needed \<and>
    start_size self < cache_length cache_set \<and> space_needed \<le> max_cache_len self \<longrightarrow>
      evict_for_space self cache_set space_needed =
        Inr (map (\<lambda>(k, v).
                    (truncate_front_and_back (start_size self) (max_cache_len self - space_needed) k,
                     truncate_front_and_back (start_size self) (max_cache_len self - space_needed) v))
               cache_set)) \<and>
   (start_size self = 4 \<and> max_cache_len self = 20 \<and> cache_length cache_set = 18 \<longrightarrow>
      evict_for_space self cache_set 5 = Inr cache_set) \<and>
   (start_size self = 4 \<and> max_cache_len self = 20 \<and> cache_set \<noteq> [] \<and>
    list_all (\<lambda>(k, v). length k = 22 \<and> length v = 22) cache_set \<longrightarrow>
      (\<exists>kept. evict_for_space self cache_set 5 = Inr kept \<and>
         kept = map (\<lambda>(k, v). (truncate_front_and_back 4 15 k, truncate_front_and_back 4 15 v))
                  cache_set \<and>
         list_all (\<lambda>(k, v). length k = 19 \<and> length v = 19) kept \<and>
         cache_length kept = 19))"
proof (intro conjI impI)
  assume "cache_length cache_set + space_needed \<le> max_cache_len self + start_size self"
  then show "evict_for_space self cache_set space_needed = Inr cache_set"
    by (rule evict_for_space_enough_room)
next
  assume "cache_length cache_set \<le> start_size self"
  then show "evict_for_space self cache_set space_needed = Inr cache_set"
    by (rule evict_for_space_below_sink)
next
  assume "max_cache_len self + start_size self < cache_length cache_set + space_needed \<and>
    start_size self < cache_length cache_set \<and> max_cache_len self < space_needed"
  then show "evict_for_space self cache_set space_needed = Inl InvalidArgument"
    by (simp add: evict_for_space_too_large)
next
  assume "max_cache_len self + start_size self < cache_length cache_set + space_needed \<and>
    start_size self < cache_length cache_set \<and> space_needed \<le> max_cache_len self"
  then show "evict_for_space self cache_set space_needed =
        Inr (map (\<lambda>(k, v).
                    (truncate_front_and_back (start_size self) (max_cache_len self - space_needed) k,
                     truncate_front_and_back (start_size self) (max_cache_len self - space_needed) v))
               cache_set)"
    by (simp add: evict_for_space_compacts)
next
  assume "start_size self = 4 \<and> max_cache_len self = 20 \<and> cache_length cache_set = 18"
  then show "evict_for_space self cache_set 5 = Inr cache_set"
    by (simp add: evict_for_space_enough_room)
next
  assume a: "start_size self = 4 \<and> max_cache_len self = 20 \<and> cache_set \<noteq> [] \<and>
    list_all (\<lambda>(k, v). length k = 22 \<and> length v = 22) cache_set"
  define kept where
    "kept = map (\<lambda>(k, v). (truncate_front_and_back 4 15 k, truncate_front_and_back 4 15 v)) cache_set"
  have len: "cache_length cache_set = 22"
    using a by (simp add: cache_length_uniform)
  have run: "evict_for_space self cache_set 5 = Inr kept"
    using a len by (simp add: evict_for_space_compacts kept_def)
  have all19: "list_all (\<lambda>(k, v). length k = 19 \<and> length v = 19) kept"
    using a by (auto simp add: kept_def list_all_iff length_truncate_front_and_back)
  have "kept \<noteq> []" using a by (simp add: kept_def)
  then have "cache_length kept = 19" using all19 by (rule cache_length_uniform)
  with run all19 show "\<exists>kept. evict_for_space self cache_set 5 = Inr kept \<and>
         kept = map (\<lambda>(k, v). (truncate_front_and_back 4 15 k, truncate_front_and_back 4 15 v))
                  cache_set \<and>
         list_all (\<lambda>(k, v). length k = 19 \<and> length v = 19) kept \<and>
         cache_length kept = 19"
    by (simp add: kept_def)
qed

theorem evict_for_space_policy_witness:
  "evict_for_space \<lparr>start_size = 4, max_cache_len = 20\<rparr> [([0..<18], [0..<18])] 5 =
     Inr [([0..<18], [0..<18])] \<and>
   evict_for_space \<lparr>start_size = 4, max_cache_len = 20\<rparr> [([0..<22], [0..<22])] 5 =
     Inr [([0..<4] @ [7..<22], [0..<4] @ [7..<22])] \<and>
   evict_for_space \<lparr>start_size = 4, max_cache_len = 20\<rparr> [([0..<3], [0..<3])] 30 =
     Inr [([0..<3], [0..<3])]"
  using evict_for_space_policy [of "[([0..<18], [0..<18])]" 5 "\<lparr>start_size = 4, max_cache_len = 20\<rparr>"]
    evict_for_space_policy [of "[([0..<22], [0..<22])]" 5 "\<lparr>start_size = 4, max_cache_len = 20\<rparr>"]
    evict_for_space_policy [of "[([0..<3], [0..<3])]" 30 "\<lparr>start_size = 4, max_cache_len = 20\<rparr>"]
  by (simp add: cache_length_def truncate_front_and_back_def)

text \<open>
  Claim C3 as it is stated fails: past the threshold the policy does not always compact.
  With \<open>start_size = 4\<close>, \<open>max_cache_len = 20\<close>, a cache of length 22 and
  \<open>space_needed = 25\<close> the request is refused.
\<close>

theorem evict_for_space_otherwise_counterexample:
  "evict_for_space \<lparr>start_size = 4, max_cache_len = 20\<rparr> [([0..<22], [0..<22])] 25 =
     Inl InvalidArgument"
  by (simp add: evict_for_space_def cache_length_def)

section \<open>What a compaction retains\<close>

text \<open>
  Claim C1 as it is stated fails on the ChatGLM3 path: a cached tensor of 2049 rows
  loses its earliest row, so no leading window is retained.
\<close>

theorem chatglm3_drops_sink_counterexample:
  "chatglm3_trim [[[0..<2049], [0..<2049]]] = Inr [[[1..<2049], [1..<2049]]] \<and>
   hd [0..<2049] \<notin> set [1..<2049]"
  by (simp add: chatglm3_trim_def max_past_length_def keep_recent_def slice_last_def del: upt_rec_numeral)

text \<open>
  Claim C1, as amended.  \<^const>\<open>evict_for_space\<close> compacts when the session is longer than
  the sink window, the rows held and the rows asked for exceed the ceiling plus the sink
  window, and the request is within the ceiling; it then retains, for the keys and the
  values of every layer, the earliest \<open>start_size\<close> rows followed by the most recent
  \<open>max_cache_len - space_needed\<close> rows, two windows that do not overlap.  The ChatGLM3
  path is a second compaction, outside this policy: it fires exactly when the first
  tensor of the first layer has more than \<^const>\<open>max_past_length\<close> rows, and then every
  cached tensor keeps its last \<^const>\<open>max_past_length\<close> rows and nothing else; otherwise
  the cache is left as it is.
\<close>

theorem compaction_retains:
  "(evict_for_space self cache_set space_needed = Inr kept \<longrightarrow>
      kept = cache_set \<or>
      kept = map (\<lambda>(k, v).
                   (take (start_size self) k @ drop (length k - (max_cache_len self - space_needed)) k,
                    take (start_size self) v @ drop (length v - (max_cache_len self - space_needed)) v))
               cache_set \<and>
      start_size self + (max_cache_len self - space_needed) < cache_length cache_set) \<and>
   (chatglm3_trim past_key_values = Inr recent \<longrightarrow>
      recent = past_key_values \<or>
      recent = map (map (\<lambda>val. drop (length val - max_past_length) val)) past_key_values) \<and>
   chatglm3_trim ((val0 # vals) # layers) =
     Inr (if max_past_length < length val0
          then map (map (\<lambda>val. drop (length val - max_past_length) val)) ((val0 # vals) # layers)
          else (val0 # vals) # layers) \<and>
   (max_cache_len self + start_size self < cache_length cache_set + space_needed \<and>
    start_size self < cache_length cache_set \<and> space_needed \<le> max_cache_len self \<longrightarrow>
      evict_for_space self cache_set space_needed =
        Inr (map (\<lambda>(k, v).
                   (take (start_size self) k @ drop (length k - (max_cache_len self - space_needed)) k,
                    take (start_size self) v @ drop (length v - (max_cache_len self - space_needed)) v))
               cache_set))"
proof (intro conjI impI)
  assume "evict_for_space self cache_set space_needed = Inr kept"
  then show "kept = cache_set \<or>
      kept = map (\<lambda>(k, v).
                   (take (start_size self) k @ drop (length k - (max_cache_len self - space_needed)) k,
                    take (start_size self) v @ drop (length v - (max_cache_len self - space_needed)) v))
               cache_set \<and>
      start_size self + (max_cache_len self - space_needed) < cache_length cache_set"
    by (auto simp add: evict_for_space_def truncate_front_and_back_def split: if_splits)
next
  assume "chatglm3_trim past_key_values = Inr recent"
  then show "recent = past_key_values \<or>
      recent = map (map (\<lambda>val. drop (length val - max_past_length) val)) past_key_values"
    by (auto simp add: chatglm3_trim_def keep_recent_def slice_last_def max_past_length_def
        split: list.splits if_splits)
next
  show "chatglm3_trim ((val0 # vals) # layers) =
     Inr (if max_past_length < length val0
          then map (map (\<lambda>val. drop (length val - max_past_length) val)) ((val0 # vals) # layers)
          else (val0 # vals) # layers)"
    by (simp add: chatglm3_trim_def keep_recent_def slice_last_def max_past_length_def)
next
  assume "max_cache_len self + start_size self < cache_length cache_set + space_needed \<and>
    start_size self < cache_length cache_set \<and> space_needed \<le> max_cache_len self"
  then show "evict_for_space self cache_set space_needed =
        Inr (map (\<lambda>(k, v).
                   (take (start_size self) k @ drop (length k - (max_cache_len self - space_needed)) k,
                    take (start_size self) v @ drop (length v - (max_cache_len self - space_needed)) v))
               cache_set)"
    by (simp add: evict_for_space_def truncate_front_and_back_def)
qed

theorem compaction_retains_witness:
  "evict_for_space \<lparr>start_size = 4, max_cache_len = 20\<rparr> [([0..<22], [0..<22])] 5 =
     Inr [([0..<4] @ [7..<22], [0..<4] @ [7..<22])] \<and>
   chatglm3_trim [[replicate 2050 (0::nat), replicate 2050 1]] = Inr [[replicate 2048 0, replicate 2048 1]] \<and>
   chatglm3_trim [[replicate 2048 (0::nat), replicate 2050 1]] = Inr [[replicate 2048 0, replicate 2050 1]]"
proof -
  have e: "evict_for_space \<lparr>start_size = 4, max_cache_len = 20\<rparr> [([0..<22], [0..<22])] 5 =
     Inr [([0..<4] @ [7..<22], [0..<4] @ [7..<22])]"
    by (simp add: evict_for_space_def cache_length_def truncate_front_and_back_def)
  have g: "chatglm3_trim [[replicate 2050 (0::nat), replicate 2050 1]] = Inr [[replicate 2048 0, replicate 2048 1]]"
    by (simp add: chatglm3_trim_def keep_recent_def slice_last_def max_past_length_def)
  from compaction_retains [of "\<lparr>start_size = 4, max_cache_len = 20\<rparr>" "[([0..<22], [0..<22])]" 5
      "[([0..<4] @ [7..<22], [0..<4] @ [7..<22])]"
      "[[replicate 2050 (0::nat), replicate 2050 1]]" "[[replicate 2048 0, replicate 2048 1]]"
      "replicate 2048 (0::nat)" "[replicate 2050 1]" "[]"] e g
  show ?thesis by (simp add: max_past_length_def cache_length_def)
qed

section \<open>Properties of \<^verbatim>\<open>greedy_generate\<close>\<close>

lemma generate_loop_counts:
  assumes "extends_cache model"
  shows "length (generated_ids (generate_loop model tok stop_words n s)) \<le> length (generated_ids s) + n \<and>
         length (generated_ids s) \<le> length (generated_ids (generate_loop model tok stop_words n s)) \<and>
         cache_length (cache (generate_loop model tok stop_words n s)) + length (generated_ids s) =
           cache_length (cache s) + length (generated_ids (generate_loop model tok stop_words n s))"
proof (induction n arbitrary: s)
  case 0
  show ?case by simp
next
  case (Suc n)
  obtain c t where m: "model [pred_token_idx s] (Some (cache s)) = (c, t)"
    by (cases "model [pred_token_idx s] (Some (cache s))")
  have "cache_length (fst (model [pred_token_idx s] (Some (cache s)))) = cache_length (cache s) + 1"
    using assms by (simp add: extends_cache_def past_length_def)
  then have c: "cache_length c = cache_length (cache s) + 1" using m by simp
  show ?case
    using Suc.IH [of "s\<lparr>cache := c, pred_token_idx := t, generated_ids := generated_ids s @ [t],
                        generated_text := Some (decode tok (generated_ids s @ [t]))\<rparr>"]
      Suc.IH [of "s\<lparr>cache := c, pred_token_idx := t, generated_ids := generated_ids s @ [t],
                        generated_text := Some (decode tok (generated_ids s @ [t])),
                        pos := int (length (decode tok (generated_ids s @ [t]))) - 1\<rparr>"]
    by (simp add: m c Let_def)
qed

lemma generate_loop_text:
  "generated_text (generate_loop model tok stop_words n s) = Some text \<Longrightarrow>
   generated_text s = None \<Longrightarrow> 0 < n"
  by (cases n) auto

lemma greedy_generate_run_counts:
  assumes ext: "extends_cache model"
    and s: "s = greedy_generate_run model tok input_ids past_key_values max_gen_len stop_words"
  shows "length (generated_ids s) \<le> 1 + (max_gen_len - 1)"
    and "1 \<le> length (generated_ids s)"
    and "cache_length (cache s) + 1 =
           past_length past_key_values + length input_ids + length (generated_ids s)"
proof -
  obtain c t where m: "model input_ids past_key_values = (c, t)"
    by (cases "model input_ids past_key_values")
  define s0 where "s0 = \<lparr>cache = c, pred_token_idx = t, generated_ids = [t],
             pos = 0, generated_text = None\<rparr>"
  have run: "s = generate_loop model tok stop_words (max_gen_len - 1) s0"
    by (simp add: s greedy_generate_run_def m s0_def)
  have "cache_length (fst (model input_ids past_key_values)) =
          past_length past_key_values + length input_ids"
    using ext by (simp add: extends_cache_def)
  then have c: "cache_length (cache s0) = past_length past_key_values + length input_ids"
    by (simp add: m s0_def)
  have ids0: "length (generated_ids s0) = 1" by (simp add: s0_def)
  note loop = generate_loop_counts [OF ext, of tok stop_words "max_gen_len - 1" s0]
  show "length (generated_ids s) \<le> 1 + (max_gen_len - 1)"
    using loop ids0 run by simp
  show "1 \<le> length (generated_ids s)"
    using loop ids0 run by simp
  show "cache_length (cache s) + 1 =
           past_length past_key_values + length input_ids + length (generated_ids s)"
    using loop ids0 run c by simp
qed

lemma greedy_generate_returns:
  assumes "greedy_generate model tok input_ids past_key_values max_gen_len stop_words = Inr kept"
  shows "2 \<le> max_gen_len"
    and "kept = cache (greedy_generate_run model tok input_ids past_key_values max_gen_len stop_words)"
proof -
  obtain c t where m: "model input_ids past_key_values = (c, t)"
    by (cases "model input_ids past_key_values")
  from assms obtain shown where
    shown: "generated_text (greedy_generate_run model tok input_ids past_key_values max_gen_len stop_words) = Some shown"
    and kept: "kept = cache (greedy_generate_run model tok input_ids past_key_values max_gen_len stop_words)"
    by (auto simp add: greedy_generate_def Let_def split: option.splits)
  from shown have "0 < max_gen_len - 1"
    unfolding greedy_generate_run_def m by (auto dest: generate_loop_text)
  then show "2 \<le> max_gen_len" by simp
  show "kept = cache (greedy_generate_run model tok input_ids past_key_values max_gen_len stop_words)"
    by (rule kept)
qed

lemma echo_model_extends: "extends_cache echo_model"
  by (auto simp add: extends_cache_def echo_model_def past_length_def cache_length_def Let_def
      split: option.splits list.splits)

lemma echo_run:
  "greedy_generate_run echo_model letters [5, 6] None 3 (Some []) =
     \<lparr>cache = [([5, 6, 7, 7], [5, 6, 7, 7])], pred_token_idx = 7, generated_ids = [7, 7, 7],
      pos = 2, generated_text = Some (map char_of [7, 7, 7::nat])\<rparr>"
  by (simp add: greedy_generate_run_def echo_model_def letters_def numeral_2_eq_2 stop_hit_def
      Let_def newline_def)

text \<open>
  Claim C9.  With a model whose forward pass extends the cache by the ids it is fed, a
  call of \<^verbatim>\<open>greedy_generate\<close> generates one token in the first forward pass and at most
  \<open>max_gen_len - 1\<close> in the loop, and the cache grows by the prompt and by every token but
  the last.  So the cache never grows by more than \<open>seq_len + max_gen_len\<close>, and for
  \<open>max_gen_len \<ge> 1\<close> there are at most \<open>max_gen_len\<close> tokens and the cache grows by less
  than \<open>seq_len + max_gen_len\<close>.  A call that returns has
  \<open>max_gen_len \<ge> 2\<close> (with less, line 116 reads an unbound \<^verbatim>\<open>generated_text\<close>), so the
  bound holds for every call that returns, and a turn of a chat loop that returns leaves
  a cache shorter than the cache the policy handed over plus the \<open>space_needed\<close> it was
  asked for.
\<close>

theorem greedy_generate_bounded:
  assumes ext: "extends_cache model"
    and s: "s = greedy_generate_run model tok input_ids past_key_values max_gen_len stop_words"
  shows "length (generated_ids s) \<le> 1 + (max_gen_len - 1) \<and>
         cache_length (cache s) + 1 =
           past_length past_key_values + length input_ids + length (generated_ids s) \<and>
         cache_length (cache s) \<le> past_length past_key_values + (length input_ids + max_gen_len) \<and>
         (1 \<le> max_gen_len \<longrightarrow>
            length (generated_ids s) \<le> max_gen_len \<and>
            cache_length (cache s) < past_length past_key_values + (length input_ids + max_gen_len)) \<and>
         (\<forall>kept. greedy_generate model tok input_ids past_key_values max_gen_len stop_words = Inr kept \<longrightarrow>
            2 \<le> max_gen_len \<and> kept = cache s \<and>
            cache_length kept < past_length past_key_values + (length input_ids + max_gen_len)) \<and>
         (\<forall>self before calls after.
            chat_turn template model tok (Some self) max_gen_len stop_words before user_input =
              (calls, Inr after) \<longrightarrow>
            (\<exists>kept. evict_past self before (length (encode tok (template user_input)) + max_gen_len) =
                      Inr kept \<and>
                    past_length after <
                      past_length kept + (length (encode tok (template user_input)) + max_gen_len)))"
proof -
  note run = greedy_generate_run_counts [OF ext s]
  have a: "length (generated_ids s) \<le> 1 + (max_gen_len - 1)" by (rule run(1))
  have b: "cache_length (cache s) + 1 =
           past_length past_key_values + length input_ids + length (generated_ids s)"
    by (rule run(3))
  have b': "cache_length (cache s) \<le> past_length past_key_values + (length input_ids + max_gen_len)"
    using a b by simp
  have c: "1 \<le> max_gen_len \<longrightarrow>
            length (generated_ids s) \<le> max_gen_len \<and>
            cache_length (cache s) < past_length past_key_values + (length input_ids + max_gen_len)"
    using a b by auto
  have d: "\<forall>kept. greedy_generate model tok input_ids past_key_values max_gen_len stop_words = Inr kept \<longrightarrow>
            2 \<le> max_gen_len \<and> kept = cache s \<and>
            cache_length kept < past_length past_key_values + (length input_ids + max_gen_len)"
  proof (intro allI impI)
    fix kept
    assume r: "greedy_generate model tok input_ids past_key_values max_gen_len stop_words = Inr kept"
    from greedy_generate_returns [OF r] have "2 \<le> max_gen_len" and "kept = cache s"
      by (simp_all add: s)
    with c show "2 \<le> max_gen_len \<and> kept = cache s \<and>
            cache_length kept < past_length past_key_values + (length input_ids + max_gen_len)"
      by simp
  qed
  have e: "\<forall>self before calls after.
            chat_turn template model tok (Some self) max_gen_len stop_words before user_input =
              (calls, Inr after) \<longrightarrow>
            (\<exists>kept. evict_past self before (length (encode tok (template user_input)) + max_gen_len) =
                      Inr kept \<and>
                    past_length after <
                      past_length kept + (length (encode tok (template user_input)) + max_gen_len))"
  proof (intro allI impI)
    fix self before calls after
    assume t: "chat_turn template model tok (Some self) max_gen_len stop_words before user_input =
              (calls, Inr after)"
    define ids where "ids = encode tok (template user_input)"
    from t obtain kept where
      ev: "evict_past self before (length ids + max_gen_len) = Inr kept"
      and g: "map_sum id Some (greedy_generate model tok ids kept max_gen_len stop_words) = Inr after"
      by (auto simp add: chat_turn_def Let_def ids_def split: sum.splits)
    from g obtain grown where
      gg: "greedy_generate model tok ids kept max_gen_len stop_words = Inr grown"
      and after: "after = Some grown"
      by (cases "greedy_generate model tok ids kept max_gen_len stop_words") auto
    from greedy_generate_returns [OF gg]
    have two: "2 \<le> max_gen_len"
      and grown: "grown = cache (greedy_generate_run model tok ids kept max_gen_len stop_words)"
      by simp_all
    from greedy_generate_run_counts [OF ext refl, of tok ids kept max_gen_len stop_words]
    have "cache_length grown < past_length kept + (length ids + max_gen_len)"
      using two grown by simp
    with ev after show "\<exists>kept. evict_past self before (length (encode tok (template user_input)) + max_gen_len) =
                      Inr kept \<and>
                    past_length after <
                      past_length kept + (length (encode tok (template user_input)) + max_gen_len)"
      by (auto simp add: ids_def past_length_def)
  qed
  from a b b' c d e show ?thesis by blast
qed

theorem greedy_generate_bounded_witness:
  "length (generated_ids (greedy_generate_run echo_model letters [5, 6] None 3 (Some []))) = 3 \<and>
   greedy_generate echo_model letters [5, 6] None 3 (Some []) = Inr [([5, 6, 7, 7], [5, 6, 7, 7])] \<and>
   cache_length [([5, 6, 7, 7], [5, 6, 7, 7::nat])] < past_length (None :: nat cache_set option) + (2 + 3)"
  using greedy_generate_bounded [OF echo_model_extends refl, of letters "[5, 6]" None 3 "Some []"]
  by (simp add: echo_run greedy_generate_def)

section \<open>Properties of the chat loops\<close>








section \<open>Properties of the cache helpers\<close>

lemma allocate_storage_Inr:
  assumes "allocate_storage b h n d dev = Inr (a, dev')"
  shows "a = allocated dev"
    and "allocated dev' = Suc (allocated dev)"
    and "storages dev' = (storages dev)(allocated dev := replicate n None)"
  using assms by (auto simp add: allocate_storage_def split: if_splits)

lemma init_kv_cache_Inr:
  assumes "init_kv_cache b h d len cap dev = (Inr (k, v), dev')"
  shows "k = \<lparr>base = allocated dev, size2 = len, size3 = d, stride1 = cap * d\<rparr>"
    and "v = \<lparr>base = Suc (allocated dev), size2 = len, size3 = d, stride1 = cap * d\<rparr>"
    and "len \<le> cap"
    and "allocated dev' = Suc (Suc (allocated dev))"
    and "storages dev' = (storages dev)(allocated dev := replicate cap None,
                                        Suc (allocated dev) := replicate cap None)"
proof -
  from assms have le: "len \<le> cap"
    by (auto simp add: init_kv_cache_def split: if_splits)
  from assms le obtain a1 dev1 where a1: "allocate_storage b h cap d dev = Inr (a1, dev1)"
    by (cases "allocate_storage b h cap d dev") (auto simp add: init_kv_cache_def)
  from assms le a1 obtain a2 dev2 where a2: "allocate_storage b h cap d dev1 = Inr (a2, dev2)"
    by (cases "allocate_storage b h cap d dev1") (auto simp add: init_kv_cache_def)
  from assms le a1 a2 have res: "k = \<lparr>base = a1, size2 = len, size3 = d, stride1 = cap * d\<rparr>"
    "v = \<lparr>base = a2, size2 = len, size3 = d, stride1 = cap * d\<rparr>" "dev' = dev2"
    by (simp_all add: init_kv_cache_def)
  note f1 = allocate_storage_Inr [OF a1] and f2 = allocate_storage_Inr [OF a2]
  show "k = \<lparr>base = allocated dev, size2 = len, size3 = d, stride1 = cap * d\<rparr>"
    using res f1 by simp
  show "v = \<lparr>base = Suc (allocated dev), size2 = len, size3 = d, stride1 = cap * d\<rparr>"
    using res f1 f2 by simp
  show "len \<le> cap" by (rule le)
  show "allocated dev' = Suc (Suc (allocated dev))"
    using res f1 f2 by simp
  show "storages dev' = (storages dev)(allocated dev := replicate cap None,
                                        Suc (allocated dev) := replicate cap None)"
    using res f1 f2 by simp
qed


lemma assign_all_Inr:
  assumes "assign_all dst src dev = Inr dev'"
  shows "allocated dev' = allocated dev"
    and "\<forall>a. a \<noteq> base dst \<longrightarrow> storages dev' a = storages dev a"
    and "length src = size2 dst \<longrightarrow>
           storages dev' (base dst) = src @ drop (size2 dst) (storages dev (base dst))"
    and "size2 dst \<le> length (storages dev (base dst)) \<longrightarrow>
           length (storages dev' (base dst)) = length (storages dev (base dst))"
  using assms by (auto simp add: assign_all_def split: if_splits)

lemma append_rows_Inr:
  assumes "append_rows t rows dev = Inr (t', dev')"
  shows "t' = t\<lparr>size2 := size2 t + length rows\<rparr>"
    and "allocated dev' = allocated dev"
    and "\<forall>a. a \<noteq> base t \<longrightarrow> storages dev' a = storages dev a"
    and "storages dev' (base t) =
           take (size2 t) (storages dev (base t)) @ map Some rows @
           drop (size2 t + length rows) (storages dev (base t))"
    and "size2 t + length rows \<le> length (storages dev (base t))"
    and "\<forall>a. length (storages dev' a) = length (storages dev a)"
  using assms by (auto simp add: append_rows_def capacity_def split: if_splits)

lemma append_kv_cache_Inr:
  assumes "append_kv_cache ck cv ks vs dev = (Inr (k, v), dev')"
  shows "k = ck\<lparr>size2 := size2 ck + length ks\<rparr>"
    and "v = cv\<lparr>size2 := size2 cv + length vs\<rparr>"
    and "allocated dev' = allocated dev"
    and "\<forall>a. a \<noteq> base ck \<longrightarrow> a \<noteq> base cv \<longrightarrow> storages dev' a = storages dev a"
    and "\<forall>a. length (storages dev' a) = length (storages dev a)"
    and "size2 ck + length ks \<le> length (storages dev (base ck))"
    and "base cv \<noteq> base ck \<longrightarrow>
           storages dev' (base ck) =
             take (size2 ck) (storages dev (base ck)) @ map Some ks @
             drop (size2 ck + length ks) (storages dev (base ck))"
    and "base cv \<noteq> base ck \<longrightarrow>
           storages dev' (base cv) =
             take (size2 cv) (storages dev (base cv)) @ map Some vs @
             drop (size2 cv + length vs) (storages dev (base cv))"
proof -
  from assms obtain k1 dev1 where k1: "append_rows ck ks dev = Inr (k1, dev1)"
    by (cases "append_rows ck ks dev") (auto simp add: append_kv_cache_def)
  from assms k1 obtain v1 dev2 where v1: "append_rows cv vs dev1 = Inr (v1, dev2)"
    by (cases "append_rows cv vs dev1") (auto simp add: append_kv_cache_def)
  from assms k1 v1 have res: "k = k1" "v = v1" "dev' = dev2"
    by (simp_all add: append_kv_cache_def)
  note f1 = append_rows_Inr [OF k1] and f2 = append_rows_Inr [OF v1]
  show "k = ck\<lparr>size2 := size2 ck + length ks\<rparr>" using res f1 by simp
  show "v = cv\<lparr>size2 := size2 cv + length vs\<rparr>" using res f2 by simp
  show "allocated dev' = allocated dev" using res f1 f2 by simp
  show "\<forall>a. a \<noteq> base ck \<longrightarrow> a \<noteq> base cv \<longrightarrow> storages dev' a = storages dev a"
    using res f1(3) f2(3) by simp
  show "\<forall>a. length (storages dev' a) = length (storages dev a)"
    using res f1(6) f2(6) by simp
  show "size2 ck + length ks \<le> length (storages dev (base ck))" using f1(5) .
  show "base cv \<noteq> base ck \<longrightarrow>
           storages dev' (base ck) =
             take (size2 ck) (storages dev (base ck)) @ map Some ks @
             drop (size2 ck + length ks) (storages dev (base ck))"
    using res f1(4) f2(3) by simp
  show "base cv \<noteq> base ck \<longrightarrow>
           storages dev' (base cv) =
             take (size2 cv) (storages dev (base cv)) @ map Some vs @
             drop (size2 cv + length vs) (storages dev (base cv))"
    using res f1(3) f2(4) by simp
qed


section \<open>The three paths of the cache handling\<close>

lemma view_heads_fields [simp]:
  "base (view_heads h t) = base t" "size2 (view_heads h t) = size2 t"
  "size3 (view_heads h t) = size3 t"
  by (simp_all add: view_heads_def)

lemma view_merged_fields [simp]:
  "base (view_merged b h t) = base t" "size2 (view_merged b h t) = size2 t"
  "size3 (view_merged b h t) = size3 t"
  by (simp_all add: view_merged_def)

lemma view_heads_rows [simp]:
  "valid_rows dev (view_heads h t) = valid_rows dev t"
  "capacity dev (view_heads h t) = capacity dev t"
  by (simp_all add: valid_rows_def capacity_def)

lemma view_merged_rows [simp]:
  "valid_rows dev (view_merged b h t) = valid_rows dev t"
  "capacity dev (view_merged b h t) = capacity dev t"
  by (simp_all add: valid_rows_def capacity_def)

lemma view_heads_probe:
  "stride1 t \<le> size2 t * size3 t \<Longrightarrow> stride1 (view_heads h t) \<le> size2 t * size3 t"
  by (simp add: view_heads_def)

lemma view_heads_one: "stride1 (view_heads 1 t) \<le> size2 t * size3 t"
  by (simp add: view_heads_def)

lemma view_many_heads:
  "h \<noteq> 1 \<Longrightarrow> view_heads h t = t" "h \<noteq> 1 \<Longrightarrow> view_merged b h t = t"
  by (simp_all add: view_heads_def view_merged_def)


lemma attention_kv_init:
  assumes "attention_kv b h d None True fused dev = (Inr present, dev')"
  shows "present = Some (view_merged b h \<lparr>base = allocated dev, size2 = length fused, size3 = d,
                           stride1 = (length fused + 256) * d\<rparr>,
                         view_merged b h \<lparr>base = Suc (allocated dev), size2 = length fused, size3 = d,
                           stride1 = (length fused + 256) * d\<rparr>)"
    and "allocated dev' = Suc (Suc (allocated dev))"
    and "storages dev' (allocated dev) = map (\<lambda>p. Some (fst p)) fused @ replicate 256 None"
    and "storages dev' (Suc (allocated dev)) = map (\<lambda>p. Some (snd p)) fused @ replicate 256 None"
    and "\<forall>a<allocated dev. storages dev' a = storages dev a"
proof -
  let ?q = "length fused"
  from assms obtain k v dev1 where
    i: "init_kv_cache b h d ?q (?q + 256) dev = (Inr (k, v), dev1)"
    by (cases "init_kv_cache b h d ?q (?q + 256) dev")
      (auto simp add: attention_kv_def Let_def KV_CACHE_ALLOC_BLOCK_LENGTH_def split: sum.splits)
  note fi = init_kv_cache_Inr [OF i]
  from assms i obtain dev2 where
    a1: "assign_all k (map Some (map fst fused)) dev1 = Inr dev2"
    by (cases "assign_all k (map Some (map fst fused)) dev1")
      (auto simp add: attention_kv_def Let_def KV_CACHE_ALLOC_BLOCK_LENGTH_def)
  from assms i a1 obtain dev3 where
    a2: "assign_all v (map Some (map snd fused)) dev2 = Inr dev3"
    by (cases "assign_all v (map Some (map snd fused)) dev2")
      (auto simp add: attention_kv_def Let_def KV_CACHE_ALLOC_BLOCK_LENGTH_def)
  from assms i a1 a2 have res: "present = Some (view_merged b h k, view_merged b h v)" "dev' = dev3"
    by (simp_all add: attention_kv_def Let_def KV_CACHE_ALLOC_BLOCK_LENGTH_def)
  note f1 = assign_all_Inr [OF a1] and f2 = assign_all_Inr [OF a2]
  have bk: "base k = allocated dev" and bv: "base v = Suc (allocated dev)"
    and sk: "size2 k = ?q" and sv: "size2 v = ?q"
    using fi by simp_all
  show "present = Some (view_merged b h \<lparr>base = allocated dev, size2 = length fused, size3 = d,
                           stride1 = (length fused + 256) * d\<rparr>,
                         view_merged b h \<lparr>base = Suc (allocated dev), size2 = length fused, size3 = d,
                           stride1 = (length fused + 256) * d\<rparr>)"
    using res fi by simp
  show "allocated dev' = Suc (Suc (allocated dev))"
    using res fi f1 f2 by simp
  have k2: "storages dev2 (allocated dev) = map (\<lambda>p. Some (fst p)) fused @ replicate 256 None"
    using f1(3) bk sk fi(5) by (simp add: comp_def)
  have "storages dev3 (allocated dev) = storages dev2 (allocated dev)"
    using f2(2) bv by simp
  then show "storages dev' (allocated dev) = map (\<lambda>p. Some (fst p)) fused @ replicate 256 None"
    using k2 res by simp
  have "storages dev2 (Suc (allocated dev)) = storages dev1 (Suc (allocated dev))"
    using f1(2) bk by simp
  then show "storages dev' (Suc (allocated dev)) = map (\<lambda>p. Some (snd p)) fused @ replicate 256 None"
    using f2(3) bv sv fi(5) res by (simp add: comp_def)
  show "\<forall>a<allocated dev. storages dev' a = storages dev a"
    using res f1(2) f2(2) bk bv fi(5) by simp
qed

lemma attention_kv_reuse:
  assumes probe: "\<not> stride1 (view_heads h ck) \<le> size2 ck * size3 ck"
    and run: "attention_kv b h d (Some (ck, cv)) uc fused dev = (Inr present, dev')"
  shows "present = (if uc then Some (ck\<lparr>size2 := size2 ck + length fused\<rparr>,
                                      cv\<lparr>size2 := size2 cv + length fused\<rparr>) else None)"
    and "allocated dev' = allocated dev"
    and "\<forall>a. length (storages dev' a) = length (storages dev a)"
    and "size2 ck + length fused \<le> capacity dev ck"
proof -
  from probe have h: "h \<noteq> 1" by (auto simp add: view_heads_def)
  then have bh: "b * h \<noteq> 1" by simp
  from h bh have views: "view_heads h ck = ck" "view_heads h cv = cv"
    "\<And>t. view_merged b h t = t"
    by (simp_all add: view_heads_def view_merged_def)
  from probe run obtain k v where
    a: "append_kv_cache ck cv (map fst fused) (map snd fused) dev = (Inr (k, v), dev')"
    and p: "present = (if uc then Some (k, v) else None)"
    by (cases "append_kv_cache ck cv (map fst fused) (map snd fused) dev")
      (auto simp add: attention_kv_def Let_def views split: sum.splits)
  note f = append_kv_cache_Inr [OF a]
  show "present = (if uc then Some (ck\<lparr>size2 := size2 ck + length fused\<rparr>,
                                      cv\<lparr>size2 := size2 cv + length fused\<rparr>) else None)"
    using p f(1) f(2) by simp
  show "allocated dev' = allocated dev" using f(3) .
  show "\<forall>a. length (storages dev' a) = length (storages dev a)" using f(5) .
  show "size2 ck + length fused \<le> capacity dev ck" using f(6) by (simp add: capacity_def)
qed

lemma attention_kv_reuse_overflow:
  assumes probe: "\<not> stride1 (view_heads h ck) \<le> size2 ck * size3 ck"
    and over: "capacity dev ck < size2 ck + length fused"
  shows "attention_kv b h d (Some (ck, cv)) uc fused dev = (Inl CapacityExceeded, dev)"
  using probe over
  by (simp add: attention_kv_def Let_def append_kv_cache_def append_rows_def)



lemma attention_kv_grow_present:
  assumes probe: "stride1 (view_heads h ck) \<le> size2 ck * size3 ck"
    and run: "attention_kv b h d (Some (ck, cv)) uc fused dev = (Inr present, dev')"
  shows "present = (if uc then
             Some (view_merged b h
                     \<lparr>base = allocated dev, size2 = size2 ck + length fused, size3 = d,
                       stride1 = (length fused + size2 ck + 256) * d\<rparr>,
                   view_merged b h
                     \<lparr>base = Suc (allocated dev), size2 = size2 ck + length fused, size3 = d,
                       stride1 = (length fused + size2 ck + 256) * d\<rparr>)
           else None)"
    and "allocated dev' = Suc (Suc (allocated dev))"
    and "length (storages dev' (allocated dev)) = length fused + size2 ck + 256"
    and "length (storages dev' (Suc (allocated dev))) = length fused + size2 ck + 256"
proof -
  let ?q = "length fused"
  let ?L = "size2 ck"
  let ?cap = "?q + ?L + 256"
  from probe run obtain nk nv dev1 where
    e: "init_kv_cache b h d ?L ?cap dev = (Inr (nk, nv), dev1)"
    by (cases "init_kv_cache b h d ?L ?cap dev")
      (auto simp add: attention_kv_def Let_def KV_CACHE_ALLOC_BLOCK_LENGTH_def
        extend_kv_cache_def split: sum.splits)
  note fi = init_kv_cache_Inr [OF e]
  have bk: "base nk = allocated dev" and bv: "base nv = Suc (allocated dev)"
    and sk: "size2 nk = ?L" and sv: "size2 nv = ?L"
    using fi by simp_all
  from probe run e obtain dev2 where a1: "assign_all nk (valid_rows dev1 ck) dev1 = Inr dev2"
    by (cases "assign_all nk (valid_rows dev1 ck) dev1")
      (auto simp add: attention_kv_def Let_def KV_CACHE_ALLOC_BLOCK_LENGTH_def extend_kv_cache_def)
  from probe run e a1 obtain dev3 where a2: "assign_all nv (valid_rows dev2 cv) dev2 = Inr dev3"
    by (cases "assign_all nv (valid_rows dev2 cv) dev2")
      (auto simp add: attention_kv_def Let_def KV_CACHE_ALLOC_BLOCK_LENGTH_def extend_kv_cache_def)
  from probe run e a1 a2 obtain k v where
    ap: "append_kv_cache nk nv (map fst fused) (map snd fused) dev3 = (Inr (k, v), dev')"
    and p: "present = (if uc then Some (view_merged b h k, view_merged b h v) else None)"
    by (cases "append_kv_cache nk nv (map fst fused) (map snd fused) dev3")
      (auto simp add: attention_kv_def Let_def KV_CACHE_ALLOC_BLOCK_LENGTH_def
        extend_kv_cache_def split: sum.splits)
  note f1 = assign_all_Inr [OF a1] and f2 = assign_all_Inr [OF a2]
    and f3 = append_kv_cache_Inr [OF ap]
  have k1: "length (storages dev1 (allocated dev)) = ?cap"
    and v1: "length (storages dev1 (Suc (allocated dev))) = ?cap"
    using fi(5) by simp_all
  have k2: "length (storages dev2 (allocated dev)) = ?cap"
    using f1(4) bk sk k1 by simp
  have v2: "length (storages dev2 (Suc (allocated dev))) = ?cap"
    using f1(2) bk v1 by simp
  have k3: "length (storages dev3 (allocated dev)) = ?cap"
    using f2(2) bv k2 by simp
  have v3: "length (storages dev3 (Suc (allocated dev))) = ?cap"
    using f2(4) bv sv v2 by simp
  show "present = (if uc then
             Some (view_merged b h
                     \<lparr>base = allocated dev, size2 = size2 ck + length fused, size3 = d,
                       stride1 = (length fused + size2 ck + 256) * d\<rparr>,
                   view_merged b h
                     \<lparr>base = Suc (allocated dev), size2 = size2 ck + length fused, size3 = d,
                       stride1 = (length fused + size2 ck + 256) * d\<rparr>)
           else None)"
    using p f3(1) f3(2) fi(1) fi(2) by simp
  show "allocated dev' = Suc (Suc (allocated dev))"
    using f3(3) f2(1) f1(1) fi(4) by simp
  show "length (storages dev' (allocated dev)) = length fused + size2 ck + 256"
    using f3(5) k3 by simp
  show "length (storages dev' (Suc (allocated dev))) = length fused + size2 ck + 256"
    using f3(5) v3 by simp
qed

lemma attention_kv_lockstep:
  assumes run: "attention_kv b h d layer_past True fused dev = (Inr present, dev')"
    and same: "\<forall>ck cv. layer_past = Some (ck, cv) \<longrightarrow> size2 cv = size2 ck"
  shows "\<exists>k v. present = Some (k, v) \<and>
           size2 k = past_rows layer_past + length fused \<and>
           size2 v = past_rows layer_past + length fused"
proof (cases layer_past)
  case None
  with attention_kv_init(1) [of b h d fused dev present dev'] run show ?thesis
    by (simp add: past_rows_def)
next
  case (Some p)
  obtain ck cv where p: "p = (ck, cv)" by (cases p)
  from same Some p have s: "size2 cv = size2 ck" by simp
  show ?thesis
  proof (cases "stride1 (view_heads h ck) \<le> size2 ck * size3 ck")
    case True
    from attention_kv_grow_present(1) [OF True run [unfolded Some p]] show ?thesis
      by (simp add: past_rows_def Some p)
  next
    case False
    from attention_kv_reuse(1) [OF False run [unfolded Some p]] s show ?thesis
      by (simp add: past_rows_def Some p)
  qed
qed



section \<open>Sessions\<close>

lemma session_inv_init:
  assumes many: "h \<noteq> 1"
    and run: "attention_kv b h d None True fused dev = (Inr present, dev')"
  shows "\<exists>k v. present = Some (k, v) \<and> session_inv d (allocated dev) 1 (length fused) dev' (k, v)"
proof -
  note f = attention_kv_init [OF run]
  show ?thesis
    using f(1) f(2) f(3) by (simp add: session_inv_def capacity_def view_many_heads [OF many])
qed

lemma session_inv_step:
  assumes many: "h \<noteq> 1"
    and inv: "session_inv d a0 n L dev (ck, cv)"
    and d: "0 < d" and q: "fused \<noteq> []"
    and run: "attention_kv b h d (Some (ck, cv)) True fused dev = (Inr present, dev')"
  shows "\<exists>k v n'. present = Some (k, v) \<and> session_inv d a0 n' (L + length fused) dev' (k, v)"
proof (cases "stride1 ck \<le> size2 ck * size3 ck")
  case True
  then have "stride1 (view_heads h ck) \<le> size2 ck * size3 ck"
    by (simp add: view_many_heads [OF many])
  note g = attention_kv_grow_present [OF this run]
  from inv True d have cap: "capacity dev ck = L"
    by (simp add: session_inv_def)
  from q have q1: "1 \<le> length fused" by (cases fused) simp_all
  from inv have n: "257 * n \<le> capacity dev ck + 1" and a: "allocated dev = a0 + 2 * n"
    and L: "size2 ck = L"
    by (simp_all add: session_inv_def)
  have "session_inv d a0 (Suc n) (L + length fused) dev'
          (\<lparr>base = allocated dev, size2 = size2 ck + length fused, size3 = d,
             stride1 = (length fused + size2 ck + 256) * d\<rparr>,
           \<lparr>base = Suc (allocated dev), size2 = size2 ck + length fused, size3 = d,
             stride1 = (length fused + size2 ck + 256) * d\<rparr>)"
    using g(2) g(3) cap q1 n a L by (simp add: session_inv_def capacity_def)
  with g(1) show ?thesis by (auto simp add: view_many_heads [OF many])
next
  case False
  then have "\<not> stride1 (view_heads h ck) \<le> size2 ck * size3 ck"
    by (simp add: view_many_heads [OF many])
  note g = attention_kv_reuse [OF this run]
  have c: "capacity dev' ck = capacity dev ck"
    using g(3) by (simp add: capacity_def)
  have "session_inv d a0 n (L + length fused) dev'
          (ck\<lparr>size2 := size2 ck + length fused\<rparr>, cv\<lparr>size2 := size2 cv + length fused\<rparr>)"
    using inv g(2) g(4) c by (simp add: session_inv_def capacity_def)
  with g(1) show ?thesis by auto
qed

lemma session_inv_steps:
  assumes "h \<noteq> 1" and "session_inv d a0 n L dev (ck, cv)"
    and "0 < d" and "list_all (\<lambda>fused. fused \<noteq> []) chunks"
    and "cached_steps (attention_kv b h d) (Some (ck, cv)) chunks dev = (Inr present, dev')"
  shows "\<exists>k v n'. present = Some (k, v) \<and>
           session_inv d a0 n' (L + length (concat chunks)) dev' (k, v)"
  using assms
proof (induction chunks arbitrary: n L dev ck cv)
  case Nil
  then show ?case by auto
next
  case (Cons fused chunks)
  obtain r1 dev1 where s: "attention_kv b h d (Some (ck, cv)) True fused dev = (r1, dev1)"
    by (cases "attention_kv b h d (Some (ck, cv)) True fused dev")
  from Cons.prems(5) s obtain p1 where r1: "r1 = Inr p1"
    and rest: "cached_steps (attention_kv b h d) p1 chunks dev1 = (Inr present, dev')"
    by (cases r1) auto
  from Cons.prems(4) have q: "fused \<noteq> []" and qs: "list_all (\<lambda>fused. fused \<noteq> []) chunks"
    by simp_all
  from session_inv_step [OF Cons.prems(1) Cons.prems(2) Cons.prems(3) q s [unfolded r1]]
  obtain k1 v1 n1 where p1: "p1 = Some (k1, v1)"
    and inv1: "session_inv d a0 n1 (L + length fused) dev1 (k1, v1)" by blast
  from Cons.IH [OF Cons.prems(1) inv1 Cons.prems(3) qs rest [unfolded p1]]
  show ?case by (simp add: add.assoc)
qed

lemma cached_steps_from_None:
  assumes many: "h \<noteq> 1" and d: "0 < d" and qs: "list_all (\<lambda>fused. fused \<noteq> []) chunks"
    and ne: "chunks \<noteq> []"
    and run: "cached_steps (attention_kv b h d) None chunks dev = (Inr present, dev')"
  shows "\<exists>k v n. present = Some (k, v) \<and>
           session_inv d (allocated dev) n (length (concat chunks)) dev' (k, v)"
proof -
  from ne obtain fused rest where c: "chunks = fused # rest" by (cases chunks) auto
  obtain r1 dev1 where s: "attention_kv b h d None True fused dev = (r1, dev1)"
    by (cases "attention_kv b h d None True fused dev")
  from run c s obtain p1 where r1: "r1 = Inr p1"
    and rest: "cached_steps (attention_kv b h d) p1 rest dev1 = (Inr present, dev')"
    by (cases r1) auto
  from session_inv_init [OF many s [unfolded r1]] obtain k1 v1 where p1: "p1 = Some (k1, v1)"
    and inv1: "session_inv d (allocated dev) 1 (length fused) dev1 (k1, v1)" by blast
  from qs c have qr: "list_all (\<lambda>fused. fused \<noteq> []) rest" by simp
  from session_inv_steps [OF many inv1 d qr rest [unfolded p1]] show ?thesis
    by (simp add: c)
qed

lemma session_inv_count:
  assumes "session_inv d a0 n L dev (k, v)"
  shows "allocated dev - a0 \<le> 2 * (L div 257 + 1)"
proof -
  from assms have "257 * n \<le> L + 257" and a: "allocated dev = a0 + 2 * n"
    by (simp_all add: session_inv_def)
  then have "n \<le> (L + 257) div 257"
    by (simp add: less_eq_div_iff_mult_less_eq mult.commute)
  then have "n \<le> L div 257 + 1" by simp
  with a show ?thesis by simp
qed

lemma falcon_variant_attention_kv:
  assumes "falcon_variant forward"
  shows "\<exists>h. forward self b = attention_kv b h (head_dim self)"
proof -
  have 1: "rw_attention_forward_7b self b = attention_kv b (num_kv self) (head_dim self)"
    by (intro ext) (simp add: rw_attention_forward_7b_def)
  have 2: "rw_attention_forward_40b self b = attention_kv b (num_heads self) (head_dim self)"
    by (intro ext) (simp add: rw_attention_forward_40b_def)
  have 3: "falcon_attention_forward self b =
      attention_kv b (if new_decoder_architecture self then num_heads self else num_kv_heads self)
        (head_dim self)"
    by (intro ext) (simp add: falcon_attention_forward_def)
  from assms 1 2 3 show ?thesis unfolding falcon_variant_def by metis
qed

lemma cached_steps_lockstep:
  assumes "cached_steps (attention_kv b h d) layer_past chunks dev = (Inr present, dev')"
    and "\<forall>ck cv. layer_past = Some (ck, cv) \<longrightarrow> size2 cv = size2 ck"
    and "chunks \<noteq> []"
  shows "\<exists>k v. present = Some (k, v) \<and>
           size2 k = past_rows layer_past + length (concat chunks) \<and>
           size2 v = past_rows layer_past + length (concat chunks)"
  using assms
proof (induction chunks arbitrary: layer_past dev)
  case Nil
  then show ?case by simp
next
  case (Cons fused chunks)
  obtain r1 dev1 where s: "attention_kv b h d layer_past True fused dev = (r1, dev1)"
    by (cases "attention_kv b h d layer_past True fused dev")
  from Cons.prems(1) s obtain p1 where r1: "r1 = Inr p1"
    and rest: "cached_steps (attention_kv b h d) p1 chunks dev1 = (Inr present, dev')"
    by (cases r1) auto
  from attention_kv_lockstep [OF s [unfolded r1] Cons.prems(2)]
  obtain k1 v1 where p1: "p1 = Some (k1, v1)"
    and k1: "size2 k1 = past_rows layer_past + length fused"
    and v1: "size2 v1 = past_rows layer_past + length fused" by blast
  show ?case
  proof (cases "chunks = []")
    case True
    with rest p1 k1 v1 show ?thesis by auto
  next
    case False
    have "\<forall>ck cv. p1 = Some (ck, cv) \<longrightarrow> size2 cv = size2 ck"
      using p1 k1 v1 by simp
    from Cons.IH [OF rest this False] p1 k1 show ?thesis
      by (simp add: past_rows_def add.assoc)
  qed
qed

lemma probe_is_capacity_test:
  "h \<noteq> 1 \<Longrightarrow> well_formed dev cache_k \<Longrightarrow> 0 < size3 cache_k \<Longrightarrow>
   (stride1 (view_heads h cache_k) \<le> size2 cache_k * size3 cache_k) =
   (capacity dev cache_k \<le> size2 cache_k)"
  by (simp add: well_formed_def view_heads_def)

lemma many_heads_overflow:
  assumes "h \<noteq> 1" and "well_formed dev cache_k" and "0 < size3 cache_k"
    and "size2 cache_k < capacity dev cache_k"
    and "capacity dev cache_k < size2 cache_k + length fused_kv"
  shows "attention_kv b h d (Some (cache_k, cache_v)) use_cache fused_kv dev =
           (Inl CapacityExceeded, dev)"
proof -
  from assms(1-4) have "\<not> stride1 (view_heads h cache_k) \<le> size2 cache_k * size3 cache_k"
    by (simp add: probe_is_capacity_test)
  from attention_kv_reuse_overflow [OF this] assms(1,5) show ?thesis
    by (simp add: view_many_heads)
qed

lemma single_head_allocates:
  assumes "attention_kv b 1 d (Some (cache_k, cache_v)) use_cache fused_kv dev = (Inr present, dev')"
  shows "allocated dev' = Suc (Suc (allocated dev))"
  using attention_kv_grow_present(2) [OF view_heads_one assms] .

lemma capacity_is_length_plus_block:
  assumes variant: "falcon_variant forward"
  shows "(forward self batch_size None True fused_kv dev = (Inr (Some (k, v)), dev') \<longrightarrow>
            capacity dev' k = length fused_kv + KV_CACHE_ALLOC_BLOCK_LENGTH \<and>
            capacity dev' v = length fused_kv + KV_CACHE_ALLOC_BLOCK_LENGTH) \<and>
         (stride1 cache_k \<le> size2 cache_k * size3 cache_k \<and>
          forward self batch_size (Some (cache_k, cache_v)) True fused_kv dev =
            (Inr (Some (k, v)), dev') \<longrightarrow>
            capacity dev' k = (size2 cache_k + length fused_kv) + KV_CACHE_ALLOC_BLOCK_LENGTH \<and>
            capacity dev' v = (size2 cache_k + length fused_kv) + KV_CACHE_ALLOC_BLOCK_LENGTH)"
proof -
  from falcon_variant_attention_kv [OF variant, of self batch_size]
  obtain h where h: "forward self batch_size = attention_kv batch_size h (head_dim self)" ..
  have 1: "forward self batch_size None True fused_kv dev = (Inr (Some (k, v)), dev') \<longrightarrow>
            capacity dev' k = length fused_kv + KV_CACHE_ALLOC_BLOCK_LENGTH \<and>
            capacity dev' v = length fused_kv + KV_CACHE_ALLOC_BLOCK_LENGTH"
  proof
    assume "forward self batch_size None True fused_kv dev = (Inr (Some (k, v)), dev')"
    then have r: "attention_kv batch_size h (head_dim self) None True fused_kv dev =
        (Inr (Some (k, v)), dev')" by (simp only: h)
    note f = attention_kv_init [OF r]
    from f(1) have "base k = allocated dev" and "base v = Suc (allocated dev)" by simp_all
    with f(3) f(4) show "capacity dev' k = length fused_kv + KV_CACHE_ALLOC_BLOCK_LENGTH \<and>
            capacity dev' v = length fused_kv + KV_CACHE_ALLOC_BLOCK_LENGTH"
      by (simp add: capacity_def KV_CACHE_ALLOC_BLOCK_LENGTH_def)
  qed
  have 2: "stride1 cache_k \<le> size2 cache_k * size3 cache_k \<and>
          forward self batch_size (Some (cache_k, cache_v)) True fused_kv dev =
            (Inr (Some (k, v)), dev') \<longrightarrow>
            capacity dev' k = (size2 cache_k + length fused_kv) + KV_CACHE_ALLOC_BLOCK_LENGTH \<and>
            capacity dev' v = (size2 cache_k + length fused_kv) + KV_CACHE_ALLOC_BLOCK_LENGTH"
  proof (intro impI, elim conjE)
    assume probe: "stride1 cache_k \<le> size2 cache_k * size3 cache_k"
      and "forward self batch_size (Some (cache_k, cache_v)) True fused_kv dev =
            (Inr (Some (k, v)), dev')"
    then have r: "attention_kv batch_size h (head_dim self) (Some (cache_k, cache_v)) True fused_kv dev =
        (Inr (Some (k, v)), dev')" by (simp only: h)
    note g = attention_kv_grow_present [OF view_heads_probe [OF probe] r]
    from g(1) have "base k = allocated dev" and "base v = Suc (allocated dev)" by simp_all
    with g(3) g(4) show "capacity dev' k = (size2 cache_k + length fused_kv) + KV_CACHE_ALLOC_BLOCK_LENGTH \<and>
            capacity dev' v = (size2 cache_k + length fused_kv) + KV_CACHE_ALLOC_BLOCK_LENGTH"
      by (simp add: capacity_def KV_CACHE_ALLOC_BLOCK_LENGTH_def)
  qed
  from 1 2 show ?thesis by blast
qed

lemma many_heads_allocations:
  assumes many: "h \<noteq> 1" and d: "0 < d" and qs: "list_all (\<lambda>fused. fused \<noteq> []) chunks"
    and r: "cached_steps (attention_kv b h d) None chunks dev = (Inr (Some (k, v)), dev')"
  shows "size2 k = length (concat chunks) \<and>
         allocated dev' - allocated dev \<le>
           2 * (length (concat chunks) div (KV_CACHE_ALLOC_BLOCK_LENGTH + 1) + 1)"
proof -
  have ne: "chunks \<noteq> []"
  proof
    assume "chunks = []"
    with r show False by simp
  qed
  from cached_steps_from_None [OF many d qs ne r] obtain n where
    inv: "session_inv d (allocated dev) n (length (concat chunks)) dev' (k, v)"
    by auto
  from inv have "size2 k = length (concat chunks)" by (simp add: session_inv_def)
  moreover from session_inv_count [OF inv]
  have "allocated dev' - allocated dev \<le>
          2 * (length (concat chunks) div (KV_CACHE_ALLOC_BLOCK_LENGTH + 1) + 1)"
    by (simp add: KV_CACHE_ALLOC_BLOCK_LENGTH_def)
  ultimately show ?thesis ..
qed



lemma first_run:
  "fst (falcon_attention_forward one_head 1 None True [(5, 6), (7, 8)] (empty_device 1000)) =
     Inr (Some (\<lparr>base = 0, size2 = 2, size3 = 1, stride1 = 2\<rparr>,
                \<lparr>base = 1, size2 = 2, size3 = 1, stride1 = 2\<rparr>))"
  by (simp add: rw_attention_forward_7b_def rw_attention_forward_40b_def
      falcon_attention_forward_def attention_kv_def view_heads_def view_merged_def
      one_head_def two_heads_def full_past_def tight_past_def
      full_device_def tight_device_def empty_device_def
      extend_kv_cache_def init_kv_cache_def allocate_storage_def
      assign_all_def valid_rows_def append_kv_cache_def append_rows_def capacity_def
      KV_CACHE_ALLOC_BLOCK_LENGTH_def Let_def)


section \<open>Properties of the forward passes\<close>

text \<open>
  Claim C2 fails on the code.  With more than one key/value head the test of lines 100,
  279 and 453 compares the capacity with the rows in use (\<open>probe_is_capacity_test\<close>) and
  not with the length required after the append.  A session of two passes shows it: the
  first pass caches one row in regions of 257 slots, the second brings 257 rows, the
  required length 258 is above the capacity, yet no region is allocated and the append
  overflows.  The same happens in all three forward passes with two rows in use, one
  free slot and two new rows (\<open>many_heads_overflow\<close> is the general case).  With one
  key/value head the view of line 98 makes the test true whatever the capacity: a new
  region is allocated although the one new row fits the free slot.
\<close>

theorem probe_misses_new_rows:
  "fst (cached_steps (rw_attention_forward_7b two_heads 1) None
          [[(1, 2)], replicate 257 (3, 4)] (empty_device 100000)) = Inl CapacityExceeded \<and>
   allocated (snd (cached_steps (rw_attention_forward_7b two_heads 1) None
                     [[(1::nat, 2::nat)], replicate 257 (3, 4)] (empty_device 100000))) = 2 \<and>
   rw_attention_forward_7b two_heads 1 (Some tight_past) True [(5, 6), (7, 8)] tight_device =
     (Inl CapacityExceeded, tight_device) \<and>
   rw_attention_forward_40b two_heads 1 (Some tight_past) True [(5, 6), (7, 8)] tight_device =
     (Inl CapacityExceeded, tight_device) \<and>
   falcon_attention_forward two_heads 1 (Some tight_past) True [(5, 6), (7, 8)] tight_device =
     (Inl CapacityExceeded, tight_device) \<and>
   capacity tight_device (fst tight_past) < size2 (fst tight_past) + length [(5::nat, 6::nat), (7, 8)] \<and>
   size2 (fst tight_past) + length [(5::nat, 6::nat)] \<le> capacity tight_device (fst tight_past) \<and>
   allocated (snd (rw_attention_forward_7b one_head 1 (Some tight_past) True [(5, 6)]
                    tight_device)) = allocated tight_device + 2"
  by (simp add: rw_attention_forward_7b_def rw_attention_forward_40b_def
      falcon_attention_forward_def attention_kv_def view_heads_def view_merged_def
      one_head_def two_heads_def full_past_def tight_past_def
      full_device_def tight_device_def empty_device_def
      extend_kv_cache_def init_kv_cache_def allocate_storage_def
      assign_all_def valid_rows_def append_kv_cache_def append_rows_def capacity_def
      KV_CACHE_ALLOC_BLOCK_LENGTH_def Let_def)

text \<open>
  Claim C4 fails on the code.  The capacity asked for is \<open>kv_length + 256\<close> on the first
  cached step and on every growth (\<open>capacity_is_length_plus_block\<close>), and with more than
  one key/value head a session of \<open>L\<close> rows makes at most \<open>L div 257 + 1\<close> allocations
  (\<open>many_heads_allocations\<close>).  With one key/value head every pass on a past allocates
  (\<open>single_head_allocates\<close>): a session of a prompt of two tokens and two passes of one
  token each allocates three times a key region and a value region, six regions,
  where the bound for four rows is one allocation, two regions.
\<close>

theorem single_head_session_reallocates:
  "fst (cached_steps (rw_attention_forward_7b one_head 1) None
          [[(1, 2), (3, 4)], [(5, 6)], [(7, 8)]] (empty_device 10000)) =
     Inr (Some (\<lparr>base = 4, size2 = 4, size3 = 1, stride1 = 4\<rparr>,
                \<lparr>base = 5, size2 = 4, size3 = 1, stride1 = 4\<rparr>)) \<and>
   allocated (snd (cached_steps (rw_attention_forward_7b one_head 1) None
                     [[(1::nat, 2::nat), (3, 4)], [(5, 6)], [(7, 8)]] (empty_device 10000))) = 6 \<and>
   allocated (snd (cached_steps (rw_attention_forward_40b one_head 1) None
                     [[(1::nat, 2::nat), (3, 4)], [(5, 6)], [(7, 8)]] (empty_device 10000))) = 6 \<and>
   allocated (snd (cached_steps (falcon_attention_forward one_head 1) None
                     [[(1::nat, 2::nat), (3, 4)], [(5, 6)], [(7, 8)]] (empty_device 10000))) = 6 \<and>
   2 * (length (concat [[(1::nat, 2::nat), (3, 4)], [(5, 6)], [(7, 8)]]) div
          (KV_CACHE_ALLOC_BLOCK_LENGTH + 1) + 1) <
     allocated (snd (cached_steps (rw_attention_forward_7b one_head 1) None
                       [[(1::nat, 2::nat), (3, 4)], [(5, 6)], [(7, 8)]] (empty_device 10000))) -
     allocated (empty_device 10000 :: nat device)"
  by (simp add: rw_attention_forward_7b_def rw_attention_forward_40b_def
      falcon_attention_forward_def attention_kv_def view_heads_def view_merged_def
      one_head_def two_heads_def full_past_def tight_past_def
      full_device_def tight_device_def empty_device_def
      extend_kv_cache_def init_kv_cache_def allocate_storage_def
      assign_all_def valid_rows_def append_kv_cache_def append_rows_def capacity_def
      KV_CACHE_ALLOC_BLOCK_LENGTH_def Let_def)





text \<open>
  Claim C10.  In each of the three forward passes called with \<^verbatim>\<open>use_cache\<close> set, on a past
  whose key and value have the same number of rows (or without a past), a \<^verbatim>\<open>present\<close>
  that is returned has a key and a value with as many rows as the past plus the new
  tokens.  So in a session that starts without a cache the key and the value always
  have as many rows as tokens were fed.
\<close>

theorem present_key_value_lockstep:
  assumes variant: "falcon_variant forward"
  shows "(forward self batch_size layer_past True fused_kv dev = (Inr present, dev') \<and>
          (\<forall>cache_k cache_v. layer_past = Some (cache_k, cache_v) \<longrightarrow>
             size2 cache_v = size2 cache_k) \<longrightarrow>
          (\<exists>k v. present = Some (k, v) \<and>
             size2 k = past_rows layer_past + length fused_kv \<and>
             size2 v = past_rows layer_past + length fused_kv)) \<and>
         (cached_steps (forward self batch_size) None chunks dev = (Inr final, dev') \<and>
          chunks \<noteq> [] \<longrightarrow>
          (\<exists>k v. final = Some (k, v) \<and>
             size2 k = length (concat chunks) \<and> size2 v = length (concat chunks)))"
proof -
  from falcon_variant_attention_kv [OF variant, of self batch_size]
  obtain h where h: "forward self batch_size = attention_kv batch_size h (head_dim self)" ..
  have 1: "forward self batch_size layer_past True fused_kv dev = (Inr present, dev') \<and>
          (\<forall>cache_k cache_v. layer_past = Some (cache_k, cache_v) \<longrightarrow>
             size2 cache_v = size2 cache_k) \<longrightarrow>
          (\<exists>k v. present = Some (k, v) \<and>
             size2 k = past_rows layer_past + length fused_kv \<and>
             size2 v = past_rows layer_past + length fused_kv)"
  proof (intro impI, elim conjE)
    assume r: "forward self batch_size layer_past True fused_kv dev = (Inr present, dev')"
      and l: "\<forall>cache_k cache_v. layer_past = Some (cache_k, cache_v) \<longrightarrow>
             size2 cache_v = size2 cache_k"
    from r have "attention_kv batch_size h (head_dim self) layer_past True fused_kv dev =
        (Inr present, dev')" by (simp only: h)
    from attention_kv_lockstep [OF this l]
    show "\<exists>k v. present = Some (k, v) \<and>
             size2 k = past_rows layer_past + length fused_kv \<and>
             size2 v = past_rows layer_past + length fused_kv" .
  qed
  have 2: "cached_steps (forward self batch_size) None chunks dev = (Inr final, dev') \<and>
          chunks \<noteq> [] \<longrightarrow>
          (\<exists>k v. final = Some (k, v) \<and>
             size2 k = length (concat chunks) \<and> size2 v = length (concat chunks))"
  proof (intro impI, elim conjE)
    assume r: "cached_steps (forward self batch_size) None chunks dev = (Inr final, dev')"
      and ne: "chunks \<noteq> []"
    from r have r': "cached_steps (attention_kv batch_size h (head_dim self)) None chunks dev =
        (Inr final, dev')" by (simp only: h)
    have l: "\<forall>ck cv. (None :: (tensor \<times> tensor) option) = Some (ck, cv) \<longrightarrow> size2 cv = size2 ck"
      by simp
    from cached_steps_lockstep [OF r' l ne]
    show "\<exists>k v. final = Some (k, v) \<and>
             size2 k = length (concat chunks) \<and> size2 v = length (concat chunks)"
      by (simp add: past_rows_def)
  qed
  from 1 2 show ?thesis by blast
qed

theorem present_key_value_lockstep_witness:
  "fst (falcon_attention_forward one_head 1 None True [(5::nat, 6::nat), (7, 8)] (empty_device 1000)) =
     Inr (Some (\<lparr>base = 0, size2 = 2, size3 = 1, stride1 = 2\<rparr>,
                \<lparr>base = 1, size2 = 2, size3 = 1, stride1 = 2\<rparr>)) \<and>
   size2 \<lparr>base = 0, size2 = 2, size3 = 1, stride1 = 2\<rparr> = past_rows None + 2 \<and>
   size2 \<lparr>base = 1, size2 = 2, size3 = 1, stride1 = 2\<rparr> = past_rows None + 2"
proof -
  have v: "falcon_variant (falcon_attention_forward :: attention \<Rightarrow> nat \<Rightarrow> (tensor \<times> tensor) option \<Rightarrow>
      bool \<Rightarrow> (nat \<times> nat) list \<Rightarrow> nat device \<Rightarrow> (error + (tensor \<times> tensor) option) \<times> nat device)"
    by (simp add: falcon_variant_def)
  have run: "falcon_attention_forward one_head 1 None True [(5, 6), (7, 8)] (empty_device 1000) =
     (Inr (Some (\<lparr>base = 0, size2 = 2, size3 = 1, stride1 = 2\<rparr>,
                 \<lparr>base = 1, size2 = 2, size3 = 1, stride1 = 2\<rparr>)),
      snd (falcon_attention_forward one_head 1 None True [(5, 6), (7, 8)] (empty_device 1000)))"
    using first_run by (simp add: prod_eq_iff)
  have lock: "\<forall>cache_k cache_v. (None :: (tensor \<times> tensor) option) = Some (cache_k, cache_v) \<longrightarrow>
      size2 cache_v = size2 cache_k" by simp
  from present_key_value_lockstep [OF v, THEN conjunct1, THEN mp, OF conjI [OF run lock]]
  have "size2 \<lparr>base = 0, size2 = 2, size3 = 1, stride1 = 2\<rparr> = past_rows None + 2 \<and>
   size2 \<lparr>base = 1, size2 = 2, size3 = 1, stride1 = 2\<rparr> = past_rows None + 2"
    by auto
  with first_run show ?thesis by simp
qed

end
